theory Spec2Isabelle
  imports Main
begin

section \<open>Values of the host language\<close>

type_synonym signal = string
type_synonym message = string

text \<open>
  A number of the host language, as far as the program can tell numbers apart: an integer,
  \<open>NaN\<close>, or anything else (a fraction or an infinity).
\<close>

datatype number = Integer int | NotANumber | NonInteger

text \<open>
  What a cleanup callback can hand back (the \<open>Cleanup\<close> type of \<open>index.ts\<close>, lines 38-50).
  \<open>RObject\<close> stands for any object without a \<open>then\<close> method.
\<close>

datatype retval = RUndefined | RNull | RBool bool | RNum number | RStr string | RObject

datatype settled = Fulfilled retval | Rejected

datatype cleanup_result = Throw | Return retval | Promise settled

text \<open>
  The cleanup callback is code of the host program: besides handing back a value it may
  change the host program's own state, which is the last argument and the second result.
\<close>

type_synonym cleanup =
  "int option \<Rightarrow> signal option \<Rightarrow> nat option \<Rightarrow> nat \<Rightarrow> cleanup_result \<times> nat"

text \<open>
  The values that travel in the argument list of \<open>foregroundChild\<close>. Option objects live in
  a store and are named by their address, so that two names of one object are visible;
  arrays and strings are never written to by this library and are plain values.
\<close>

datatype jsval =
    Undefined
  | Num int
  | Str string
  | Arr "jsval list"
  | Obj nat
  | Fun cleanup

datatype jstype = TUndefined | TNumber | TString | TObject | TFunction

fun typeof :: "jsval \<Rightarrow> jstype" where
  "typeof Undefined = TUndefined"
| "typeof (Num _) = TNumber"
| "typeof (Str _) = TString"
| "typeof (Arr _) = TObject"
| "typeof (Obj _) = TObject"
| "typeof (Fun _) = TFunction"

fun truthy :: "jsval \<Rightarrow> bool" where
  "truthy Undefined = False"
| "truthy (Num n) = (n \<noteq> 0)"
| "truthy (Str s) = (s \<noteq> [])"
| "truthy _ = True"

fun isArray :: "jsval \<Rightarrow> bool" where
  "isArray (Arr _) = True"
| "isArray _ = False"

type_synonym obj = "(string \<times> jsval) list"
type_synonym heap = "obj list"

text \<open>Writing a property, and \<open>Map.prototype.set\<close>: an existing key keeps its place.\<close>

fun map_set :: "'k \<Rightarrow> 'v \<Rightarrow> ('k \<times> 'v) list \<Rightarrow> ('k \<times> 'v) list" where
  "map_set k v [] = [(k, v)]"
| "map_set k v ((k', v') # kvs) =
     (if k' = k then (k, v) # kvs else (k', v') # map_set k v kvs)"

definition alloc :: "obj \<Rightarrow> heap \<Rightarrow> nat \<times> heap" where
  "alloc ob hp = (length hp, hp @ [ob])"

fun dec :: "nat \<Rightarrow> string" where
  "dec n = (if n < 10 then [char_of (48 + n)] else dec (n div 10) @ [char_of (48 + n mod 10)])"

fun indexed :: "nat \<Rightarrow> jsval list \<Rightarrow> obj" where
  "indexed i [] = []"
| "indexed i (v # vs) = (dec i, v) # indexed (Suc i) vs"

text \<open>The own enumerable properties that an object spread \<open>{ ...v }\<close> copies.\<close>

fun own_props :: "heap \<Rightarrow> jsval \<Rightarrow> obj" where
  "own_props hp (Obj a) = (if a < length hp then hp ! a else [])"
| "own_props hp (Str s) = indexed 0 (map (\<lambda>c. Str [c]) s)"
| "own_props hp (Arr vs) = indexed 0 vs"
| "own_props hp _ = []"

section \<open>Argument normalisation (\<open>index.ts\<close>, lines 69-106)\<close>

definition defaultCleanup :: jsval where
  "defaultCleanup = Fun (\<lambda>code signal processInfo u. (Return RUndefined, u))"

definition element :: "jsval list \<Rightarrow> nat \<Rightarrow> jsval" where
  "element xs i = (if i < length xs then xs ! i else Undefined)"

text \<open>A destructuring default applies to a missing or \<open>undefined\<close> element.\<close>

fun is_undefined :: "jsval \<Rightarrow> bool" where
  "is_undefined Undefined = True"
| "is_undefined _ = False"

definition normalizeFgArgs ::
  "jsval list \<Rightarrow> heap \<Rightarrow> (jsval \<times> jsval \<times> jsval \<times> jsval) \<times> heap" where
  "normalizeFgArgs fgArgs hp =
     (let program = element fgArgs 0;
          args = (if is_undefined (element fgArgs 1) then Arr [] else element fgArgs 1);
          (spawnOpts, hp1) =
            (if is_undefined (element fgArgs 2) then (let (a, hp') = alloc [] hp in (Obj a, hp'))
             else (element fgArgs 2, hp));
          cleanup = (if is_undefined (element fgArgs 3) then defaultCleanup else element fgArgs 3);
          (args, spawnOpts, cleanup, hp2) =
            (if typeof args = TFunction then
               (let (a, hp') = alloc [] hp1 in (Arr [], Obj a, args, hp'))
             else if truthy args \<and> typeof args = TObject \<and> \<not> isArray args then
               (Arr [], args, (if typeof spawnOpts = TFunction then spawnOpts else cleanup), hp1)
             else if typeof spawnOpts = TFunction then
               (let (a, hp') = alloc [] hp1 in (args, Obj a, spawnOpts, hp'))
             else (args, spawnOpts, cleanup, hp1));
          (program, args) =
            (case program of
               Arr ps \<Rightarrow> (case ps of [] \<Rightarrow> (Undefined, Arr []) | pp # pa \<Rightarrow> (pp, Arr pa))
             | _ \<Rightarrow> (program, args));
          (a, hp3) = alloc (own_props hp2 spawnOpts) hp2
      in ((program, args, Obj a, cleanup), hp3))"

section \<open>The parent process, the child handle and what they do\<close>

text \<open>
  A listener is a closure; two closures are the same listener only when they were created
  by the same evaluation, so the forwarding closure of \<open>proxySignals\<close> carries the loop
  index that created it. \<open>SigExit\<close> is the listener the \<open>signal-exit\<close> package keeps on
  a signal while it is loaded. \<open>Foreign\<close> listeners belong to the host program.
\<close>

datatype listener =
    Forward nat signal
  | Unproxy
  | CloseHandler
  | RelayToParent
  | RelayToChild
  | SigExit signal
  | Foreign nat

text \<open>
  The hooks registered with \<open>signal-exit\<close>. Every call of \<open>foregroundChild\<close> creates a
  \<open>childHangup\<close> closure of its own; the number tells them apart.
\<close>

datatype hook = ChildHangup nat | ForeignHook nat

datatype error =
    SubscribeError signal
  | ChildKillError signal
  | SelfKillError signal
  | ExitCodeError
  | CleanupThrew
  | CleanupRejected

text \<open>
  What the run does to the world outside. \<open>SelfKill p sig ok\<close> is one call of
  \<open>process.kill p sig\<close>, with \<open>ok\<close> telling whether the signal was sent or the call threw;
  \<open>Exit n\<close> is \<open>process.exit n\<close>.
\<close>

datatype effect =
    Spawn jsval jsval obj
  | WatchdogSpawn
  | ChildKill signal
  | OtherHangup nat
  | SelfKill nat signal bool
  | SetTimeout nat
  | Exit int
  | CleanupCall "int option" "signal option" "nat option"
  | ProcessSend message
  | ChildSend message
  | ForeignCall nat
  | Uncaught error

text \<open>
  The platform: whether the parent has a message channel (\<open>process.send\<close>), its process id,
  which signal names it lets a process subscribe to, and which signals can be sent to the
  child and to the parent itself. \<open>allSignals\<close> is the Signal Catalog of
  \<open>all-signals.ts\<close> and \<open>watchdogPid\<close> the \<open>pid\<close> of the handle that
  \<open>watchdog.ts\<close> returns; neither file is among the sources, so both are parameters.
  \<open>exitSignals\<close> is the list of signals the \<open>signal-exit\<close> package listens to on this
  platform.
\<close>

record host =
  has_send :: bool
  pid :: nat
  can_listen :: "signal \<Rightarrow> bool"
  child_accepts :: "signal \<Rightarrow> bool"
  self_accepts :: "signal \<Rightarrow> bool"
  allSignals :: "signal list"
  exitSignals :: "signal list"
  watchdogPid :: "nat option"

text \<open>
  The mutable state seen by one call of \<open>foregroundChild\<close>: the parent's listener lists;
  the state of \<open>signal-exit\<close> (its hooks, whether its signal listeners are loaded, whether
  it has run the hooks already); the listener lists of the child handle of this call; the
  closure variables of this call, namely \<open>listeners\<close> (the Listener Registration Table of
  \<open>proxySignals\<close>), \<open>done\<close>, and which \<open>childHangup\<close> closure \<open>removeOnExit\<close> unregisters;
  the close handler suspended at its \<open>await\<close>; the host program's own state; and the
  effects observed so far. Listeners and hooks that earlier calls left on the parent are
  part of the parent's lists; the child handles and closure variables of earlier calls
  are not represented.
\<close>

record run =
  sig_subs :: "(signal \<times> listener) list"
  msg_subs :: "listener list"
  exit_hooks :: "hook list"
  exit_loaded :: bool
  exit_emitted :: bool
  child_exit_subs :: "listener list"
  child_close_subs :: "listener list"
  child_msg_subs :: "listener list"
  listeners :: "(signal \<times> listener) list"
  done_flag :: bool
  hangup_id :: nat
  awaiting :: "(settled \<times> int option \<times> signal option) option"
  user :: nat
  trace :: "effect list"

definition log :: "effect \<Rightarrow> run \<Rightarrow> run" where
  "log e r = r\<lparr>trace := trace r @ [e]\<rparr>"

definition try_catch :: "error + 'a \<Rightarrow> (error \<Rightarrow> error + 'a) \<Rightarrow> error + 'a" where
  "try_catch body handler = (case body of Inl e \<Rightarrow> handler e | Inr x \<Rightarrow> Inr x)"

definition process_on :: "host \<Rightarrow> signal \<Rightarrow> listener \<Rightarrow> run \<Rightarrow> error + run" where
  "process_on h sig l r =
     (if can_listen h sig then Inr (r\<lparr>sig_subs := sig_subs r @ [(sig, l)]\<rparr>)
      else Inl (SubscribeError sig))"

text \<open>\<open>removeListener\<close> takes out the most recently added instance only.\<close>

definition removeListener ::
  "signal \<Rightarrow> listener \<Rightarrow> (signal \<times> listener) list \<Rightarrow> (signal \<times> listener) list" where
  "removeListener sig l subs = rev (remove1 (sig, l) (rev subs))"

definition child_kill :: "host \<Rightarrow> signal \<Rightarrow> run \<Rightarrow> error + run" where
  "child_kill h sig r =
     (if child_accepts h sig then Inr (log (ChildKill sig) r) else Inl (ChildKillError sig))"

text \<open>
  \<open>process.kill\<close> on the parent itself: every call is observed, whether the platform sends
  the signal or the call throws. The first component is the exception, if any.
\<close>

definition process_kill :: "host \<Rightarrow> nat \<Rightarrow> signal \<Rightarrow> run \<Rightarrow> error option \<times> run" where
  "process_kill h p sig r =
     ((if self_accepts h sig then None else Some (SelfKillError sig)),
      log (SelfKill p sig (self_accepts h sig)) r)"

text \<open>\<open>process.exit\<close> takes integers only and throws on any other number.\<close>

fun process_exit :: "number \<Rightarrow> run \<Rightarrow> error option \<times> run" where
  "process_exit (Integer n) r = (None, log (Exit n) r)"
| "process_exit _ r = (Some ExitCodeError, r)"

section \<open>The Signal Proxy (\<open>proxy-signals.ts\<close>)\<close>

text \<open>Lines 18-25: the forwarding closure.\<close>

definition forward :: "host \<Rightarrow> signal \<Rightarrow> run \<Rightarrow> error + run" where
  "forward h sig r = try_catch (child_kill h sig r) (\<lambda>_. Inr r)"

text \<open>Lines 14-33: the loop over the catalog, from index \<open>i\<close> on.\<close>

fun proxy_loop :: "host \<Rightarrow> signal list \<Rightarrow> nat \<Rightarrow> run \<Rightarrow> error + run" where
  "proxy_loop h [] i r = Inr r"
| "proxy_loop h (sig # rest) i r =
     (if sig = [] then proxy_loop h rest (Suc i) r
      else
        (case try_catch
                (case process_on h sig (Forward i sig) r of
                   Inl e \<Rightarrow> Inl e
                 | Inr r1 \<Rightarrow> Inr (r1\<lparr>listeners := map_set sig (Forward i sig) (listeners r1)\<rparr>))
                (\<lambda>_. Inr r)
         of Inl e \<Rightarrow> Inl e
          | Inr r2 \<Rightarrow> proxy_loop h rest (Suc i) r2))"

text \<open>Lines 35-40.\<close>

definition unproxy :: "run \<Rightarrow> run" where
  "unproxy r =
     r\<lparr>sig_subs := fold (\<lambda>(sig, l) subs. removeListener sig l subs) (listeners r) (sig_subs r)\<rparr>"

definition proxySignals :: "host \<Rightarrow> run \<Rightarrow> error + (listener \<times> run)" where
  "proxySignals h r =
     (case proxy_loop h (allSignals h) 0 (r\<lparr>listeners := []\<rparr>) of
        Inl e \<Rightarrow> Inl e
      | Inr r1 \<Rightarrow> Inr (Unproxy, r1\<lparr>child_exit_subs := child_exit_subs r1 @ [Unproxy]\<rparr>))"

section \<open>The Exit Reconciler (\<open>index.ts\<close>, lines 139-231)\<close>

text \<open>
  The \<open>signal-exit\<close> package is not part of this repository; what follows is its version
  4, which \<open>index.ts\<close> imports. While at least one hook is registered the package is
  loaded: it keeps a listener of its own on every signal of its list that the platform
  lets it subscribe to.
\<close>

fun load_loop :: "host \<Rightarrow> signal list \<Rightarrow> run \<Rightarrow> run" where
  "load_loop h [] r = r"
| "load_loop h (sig # rest) r =
     load_loop h rest
       (case try_catch (process_on h sig (SigExit sig) r) (\<lambda>_. Inr r) of
          Inl e \<Rightarrow> r
        | Inr r1 \<Rightarrow> r1)"

definition load :: "host \<Rightarrow> run \<Rightarrow> run" where
  "load h r = (if exit_loaded r then r else load_loop h (exitSignals h) (r\<lparr>exit_loaded := True\<rparr>))"

definition unload :: "host \<Rightarrow> run \<Rightarrow> run" where
  "unload h r =
     (if \<not> exit_loaded r then r
      else r\<lparr>exit_loaded := False,
             sig_subs := fold (\<lambda>sig subs. removeListener sig (SigExit sig) subs)
                           (exitSignals h) (sig_subs r)\<rparr>)"

text \<open>
  \<open>onExit\<close> loads the package if need be and appends the hook. The function it returns is
  \<open>remove_hook\<close> of that hook: it takes the first registration of the hook out, if there
  is one, and unloads the package when no hook is left.
\<close>

definition onExit :: "host \<Rightarrow> hook \<Rightarrow> run \<Rightarrow> run" where
  "onExit h hk r =
     (let r1 = (if \<not> exit_loaded r then load h r else r)
      in r1\<lparr>exit_hooks := exit_hooks r1 @ [hk]\<rparr>)"

definition remove_hook :: "host \<Rightarrow> hook \<Rightarrow> run \<Rightarrow> run" where
  "remove_hook h hk r =
     (let r1 = r\<lparr>exit_hooks := remove1 hk (exit_hooks r)\<rparr>
      in if exit_hooks r1 = [] then unload h r1 else r1)"

text \<open>
  The closure variable \<open>removeOnExit\<close> of \<open>foregroundChild\<close> (line 166) is the function
  that \<open>onExit\<close> returned for this call's \<open>childHangup\<close>.
\<close>

definition removeOnExit :: "host \<Rightarrow> run \<Rightarrow> run" where
  "removeOnExit h r = remove_hook h (ChildHangup (hangup_id r)) r"

text \<open>A number that no registered \<open>childHangup\<close> closure carries.\<close>

fun fresh_id :: "hook list \<Rightarrow> nat" where
  "fresh_id [] = 0"
| "fresh_id (ChildHangup j # hks) = max (Suc j) (fresh_id hks)"
| "fresh_id (ForeignHook n # hks) = fresh_id hks"

text \<open>Lines 155-165.\<close>

definition childHangup :: "host \<Rightarrow> run \<Rightarrow> error + run" where
  "childHangup h r = try_catch (child_kill h ''SIGHUP'' r) (\<lambda>_. child_kill h ''SIGTERM'' r)"

definition lift :: "run \<Rightarrow> error + run \<Rightarrow> error option \<times> run" where
  "lift r res = (case res of Inl e \<Rightarrow> (Some e, r) | Inr r' \<Rightarrow> (None, r'))"

text \<open>
  Running the hooks of \<open>signal-exit\<close>: once only, in the order of registration, until one
  throws. The \<open>childHangup\<close> closure of an earlier call signals that call's child.
\<close>

definition run_hook :: "host \<Rightarrow> hook \<Rightarrow> run \<Rightarrow> error option \<times> run" where
  "run_hook h hk r =
     (case hk of
        ChildHangup j \<Rightarrow>
          (if j = hangup_id r then lift r (childHangup h r) else (None, log (OtherHangup j) r))
      | ForeignHook n \<Rightarrow> (None, log (ForeignCall n) r))"

fun run_hooks :: "host \<Rightarrow> hook list \<Rightarrow> run \<Rightarrow> error option \<times> run" where
  "run_hooks h [] r = (None, r)"
| "run_hooks h (hk # hks) r =
     (case run_hook h hk r of
        (Some e, r1) \<Rightarrow> (Some e, r1)
      | (None, r1) \<Rightarrow> run_hooks h hks r1)"

definition exit_emit :: "host \<Rightarrow> run \<Rightarrow> error option \<times> run" where
  "exit_emit h r =
     (if exit_emitted r then (None, r)
      else run_hooks h (exit_hooks r) (r\<lparr>exit_emitted := True\<rparr>))"

text \<open>
  The listener \<open>signal-exit\<close> keeps on a signal acts only when it is the sole listener of
  that signal: it unloads the package, runs the hooks and sends the signal to the parent
  again.
\<close>

definition sig_exit :: "host \<Rightarrow> signal \<Rightarrow> run \<Rightarrow> error option \<times> run" where
  "sig_exit h sig r =
     (if length (filter (\<lambda>(s, l). s = sig) (sig_subs r)) = 1 then
        (case exit_emit h (unload h r) of
           (Some e, r1) \<Rightarrow> (Some e, r1)
         | (None, r1) \<Rightarrow> process_kill h (pid h) sig r1)
      else (None, r))"

text \<open>
  Modelled from the spec: \<open>watchdog\<close> (\<open>watchdog.ts\<close> is not among the sources) spawns a
  detached helper process and returns its handle, of which the reconciler reads the
  process id only.
\<close>

definition watchdog :: "host \<Rightarrow> run \<Rightarrow> nat option \<times> run" where
  "watchdog h r = (watchdogPid h, log WatchdogSpawn r)"

text \<open>
  The spawn collaborator (\<open>child_process.spawn\<close> or \<open>cross-spawn\<close>) is external: it is
  given the program, the arguments and the options object as it is at the call, and
  returns a new child handle, on which nobody listens yet.
\<close>

definition spawn :: "jsval \<Rightarrow> jsval \<Rightarrow> obj \<Rightarrow> run \<Rightarrow> run" where
  "spawn program args opts r =
     log (Spawn program args opts)
       (r\<lparr>child_exit_subs := [], child_close_subs := [], child_msg_subs := []\<rparr>)"

definition stdio :: "bool \<Rightarrow> jsval" where
  "stdio hasIPC =
     (if hasIPC then Arr [Num 0, Num 1, Num 2, Str ''ipc''] else Arr [Num 0, Num 1, Num 2])"

text \<open>
  Lines 142-169 and 212-227: everything \<open>foregroundChild\<close> does before it returns. The
  result is the cleanup callback the close handler will call, the store and the run.
\<close>

definition foregroundChild ::
  "host \<Rightarrow> jsval list \<Rightarrow> heap \<Rightarrow> run \<Rightarrow> error + (jsval \<times> heap \<times> run)" where
  "foregroundChild h fgArgs hp r =
     (case normalizeFgArgs fgArgs hp of
        ((program, args, spawnOpts, cleanup), hp1) \<Rightarrow>
          (let hasIPC = has_send h;
               hp2 = (case spawnOpts of
                        Obj a \<Rightarrow> hp1[a := map_set ''stdio'' (stdio hasIPC) (hp1 ! a)]
                      | _ \<Rightarrow> hp1);
               r1 = spawn program args (own_props hp2 spawnOpts) r;
               k = fresh_id (exit_hooks r1);
               r2 = (onExit h (ChildHangup k) r1)\<lparr>hangup_id := k\<rparr>
           in case proxySignals h r2 of
                Inl e \<Rightarrow> Inl e
              | Inr (stop, r3) \<Rightarrow>
                  (let (dog, r4) = watchdog h r3;
                       r5 = r4\<lparr>done_flag := False, awaiting := None,
                               child_close_subs := child_close_subs r4 @ [CloseHandler]\<rparr>;
                       r6 = (if has_send h then
                               r5\<lparr>msg_subs := [] @ [RelayToChild],
                                   child_msg_subs := child_msg_subs r5 @ [RelayToParent]\<rparr>
                             else r5)
                   in Inr (cleanup, hp2, r6))))"

text \<open>Calling whatever ended up in \<open>cleanup\<close>: calling a non-function throws.\<close>

fun call_cleanup :: "jsval \<Rightarrow> cleanup" where
  "call_cleanup (Fun f) code signal dog u = f code signal dog u"
| "call_cleanup _ code signal dog u = (Throw, u)"

text \<open>
  Lines 183-190: the Disposition after the cleanup value has been interpreted. The child's
  code is an integer; the cleanup callback can put any number in its place.
\<close>

fun final_disposition ::
  "retval \<Rightarrow> int option \<times> signal option \<Rightarrow> number option \<times> signal option" where
  "final_disposition (RStr res) (code, signal) = (None, Some res)"
| "final_disposition (RNum res) (code, signal) = (Some res, None)"
| "final_disposition _ (code, signal) = (map_option Integer code, signal)"

text \<open>\<open>code || 0\<close>: null, 0 and \<open>NaN\<close> are falsy.\<close>

fun or_zero :: "number option \<Rightarrow> number" where
  "or_zero None = Integer 0"
| "or_zero (Some (Integer c)) = (if c \<noteq> 0 then Integer c else Integer 0)"
| "or_zero (Some NotANumber) = Integer 0"
| "or_zero (Some NonInteger) = NonInteger"

text \<open>
  Lines 192-209. The second component is the state in which the handler stops; the first
  is the error it stops with, if any.
\<close>

fun terminate :: "host \<Rightarrow> number option \<times> signal option \<Rightarrow> run \<Rightarrow> error option \<times> run" where
  "terminate h (code, Some signal) r =
     (if signal \<noteq> [] then
        (let r1 = log (SetTimeout 2000) r
         in case process_kill h (pid h) signal r1 of
              (None, r2) \<Rightarrow> (None, r2)
            | (Some e, r2) \<Rightarrow> process_kill h (pid h) ''SIGTERM'' r2)
      else process_exit (or_zero code) r)"
| "terminate h (code, None) r = process_exit (or_zero code) r"

text \<open>Lines 181-209: the close handler from the point where the cleanup value is known.\<close>

definition reconcile ::
  "host \<Rightarrow> retval \<Rightarrow> int option \<times> signal option \<Rightarrow> run \<Rightarrow> error option \<times> run" where
  "reconcile h res d r =
     (let r1 = removeOnExit h r
      in if res = RBool False then (None, r1)
         else terminate h (final_disposition res d) r1)"

text \<open>
  Lines 172-180: the close handler up to the point where it either has the cleanup value
  or suspends at \<open>await\<close>.
\<close>

definition close_handler ::
  "host \<Rightarrow> jsval \<Rightarrow> int option \<Rightarrow> signal option \<Rightarrow> run \<Rightarrow> error option \<times> run" where
  "close_handler h cleanup code signal r =
     (if done_flag r then (None, r)
      else
        (case call_cleanup cleanup code signal (watchdogPid h) (user r) of
           (result, u) \<Rightarrow>
             (let r1 = log (CleanupCall code signal (watchdogPid h))
                         (r\<lparr>done_flag := True, user := u\<rparr>)
              in case result of
                   Throw \<Rightarrow> (Some CleanupThrew, r1)
                 | Return res \<Rightarrow> reconcile h res (code, signal) r1
                 | Promise p \<Rightarrow> (None, r1\<lparr>awaiting := Some (p, code, signal)\<rparr>))))"

text \<open>The awaited promise settles and the suspended handler runs on.\<close>

definition resume :: "host \<Rightarrow> run \<Rightarrow> error option \<times> run" where
  "resume h r =
     (case awaiting r of
        None \<Rightarrow> (None, r)
      | Some (Fulfilled res, code, signal) \<Rightarrow> reconcile h res (code, signal) (r\<lparr>awaiting := None\<rparr>)
      | Some (Rejected, code, signal) \<Rightarrow> (Some CleanupRejected, r\<lparr>awaiting := None\<rparr>))"

section \<open>Events\<close>

datatype event =
    Signal signal
  | ParentExit
  | ChildExit
  | ChildClose "int option" "signal option"
  | CleanupSettled
  | ChildMessage message
  | ParentMessage message

fun subscribers :: "event \<Rightarrow> run \<Rightarrow> listener list" where
  "subscribers (Signal sig) r = map snd (filter (\<lambda>(s, l). s = sig) (sig_subs r))"
| "subscribers ParentExit r = []"
| "subscribers ChildExit r = child_exit_subs r"
| "subscribers (ChildClose code signal) r = child_close_subs r"
| "subscribers CleanupSettled r = []"
| "subscribers (ChildMessage m) r = child_msg_subs r"
| "subscribers (ParentMessage m) r = msg_subs r"

fun call_listener ::
  "host \<Rightarrow> jsval \<Rightarrow> event \<Rightarrow> listener \<Rightarrow> run \<Rightarrow> error option \<times> run" where
  "call_listener h cl ev (Forward i sig) r = lift r (forward h sig r)"
| "call_listener h cl ev Unproxy r = (None, unproxy r)"
| "call_listener h cl (ChildClose code signal) CloseHandler r = close_handler h cl code signal r"
| "call_listener h cl (ChildMessage m) RelayToParent r =
     (None, if has_send h then log (ProcessSend m) r else r)"
| "call_listener h cl (ParentMessage m) RelayToChild r = (None, log (ChildSend m) r)"
| "call_listener h cl ev (SigExit sig) r = sig_exit h sig r"
| "call_listener h cl ev (Foreign n) r = (None, log (ForeignCall n) r)"
| "call_listener h cl ev l r = (None, r)"

text \<open>
  An emitter calls the listeners it had when the event arrived, in order. An exception
  out of a listener ends the emission and reaches the host; the close handler is an
  \<open>async\<close> function, whose failure is a rejected promise the emitter does not look at.
\<close>

fun emit :: "host \<Rightarrow> jsval \<Rightarrow> event \<Rightarrow> listener list \<Rightarrow> run \<Rightarrow> run" where
  "emit h cl ev [] r = r"
| "emit h cl ev (l # ls) r =
     (case call_listener h cl ev l r of
        (None, r') \<Rightarrow> emit h cl ev ls r'
      | (Some e, r') \<Rightarrow>
          (if l = CloseHandler then emit h cl ev ls (log (Uncaught e) r')
           else log (Uncaught e) r'))"

definition surface :: "error option \<times> run \<Rightarrow> run" where
  "surface res = (case res of (None, r) \<Rightarrow> r | (Some e, r) \<Rightarrow> log (Uncaught e) r)"

text \<open>
  \<open>ParentExit\<close> is the parent's own exit event, on which \<open>signal-exit\<close> runs the hooks;
  \<open>CleanupSettled\<close> is the settling of the promise the close handler awaits.
\<close>

definition deliver :: "host \<Rightarrow> jsval \<Rightarrow> event \<Rightarrow> run \<Rightarrow> run" where
  "deliver h cl ev r =
     (if ev = CleanupSettled then surface (resume h r)
      else if ev = ParentExit then surface (exit_emit h r)
      else emit h cl ev (subscribers ev r) r)"

text \<open>
  The close handler run to its end: through its \<open>await\<close>, if it suspends there
  (\<open>resume\<close> does nothing when no handler is suspended).
\<close>

definition closed :: "host \<Rightarrow> jsval \<Rightarrow> int option \<Rightarrow> signal option \<Rightarrow> run \<Rightarrow> error option \<times> run" where
  "closed h cl code signal r =
     (case close_handler h cl code signal r of
        (Some e, r1) \<Rightarrow> (Some e, r1)
      | (None, r1) \<Rightarrow> resume h r1)"

definition new_effects :: "run \<Rightarrow> run \<Rightarrow> effect list" where
  "new_effects r r' = drop (length (trace r)) (trace r')"

fun is_cleanup_call :: "effect \<Rightarrow> bool" where
  "is_cleanup_call (CleanupCall code signal dog) = True"
| "is_cleanup_call _ = False"

definition cleanup_calls :: "run \<Rightarrow> nat" where
  "cleanup_calls r = length (filter is_cleanup_call (trace r))"

fun is_close :: "event \<Rightarrow> bool" where
  "is_close (ChildClose code signal) = True"
| "is_close _ = False"

text \<open>What the first close event among some events carries.\<close>

fun first_close :: "event list \<Rightarrow> (int option \<times> signal option) option" where
  "first_close [] = None"
| "first_close (ChildClose code signal # evs) = Some (code, signal)"
| "first_close (ev # evs) = first_close evs"

text \<open>The calls of \<open>process.kill\<close> on the parent itself among some effects.\<close>

fun is_self_kill :: "effect \<Rightarrow> bool" where
  "is_self_kill (SelfKill p sig ok) = True"
| "is_self_kill _ = False"

fun is_forward :: "signal \<times> listener \<Rightarrow> bool" where
  "is_forward (sig, Forward i s) = True"
| "is_forward _ = False"

definition deliver_all :: "host \<Rightarrow> jsval \<Rightarrow> event list \<Rightarrow> run \<Rightarrow> run" where
  "deliver_all h cl evs r = fold (deliver h cl) evs r"

text \<open>
  The subscriptions the loop of \<open>proxySignals\<close> makes on a catalog, from index \<open>i\<close> on:
  one per signal that has a name the platform lets the parent listen to.
\<close>

fun subscribed :: "host \<Rightarrow> signal list \<Rightarrow> nat \<Rightarrow> (signal \<times> listener) list" where
  "subscribed h [] i = []"
| "subscribed h (sig # rest) i =
     (if sig \<noteq> [] \<and> can_listen h sig then [(sig, Forward i sig)] else [])
     @ subscribed h rest (Suc i)"

text \<open>The cleanup callback hands back \<open>v\<close>, at once or through a promise.\<close>

definition yields :: "cleanup_result \<Rightarrow> retval \<Rightarrow> bool" where
  "yields res v = (res = Return v \<or> res = Promise (Fulfilled v))"

text \<open>The run as \<open>foregroundChild\<close> leaves it when it returns.\<close>

definition started :: "host \<Rightarrow> jsval list \<Rightarrow> heap \<Rightarrow> run \<Rightarrow> run" where
  "started h fgArgs hp r =
     (case foregroundChild h fgArgs hp r of Inl e \<Rightarrow> r | Inr (cleanup, hp', r') \<Rightarrow> r')"

section \<open>Sample platforms and runs\<close>

text \<open>
  A POSIX-like parent without a message channel, the same parent launched with one, and a
  platform on which the parent cannot signal itself with anything but \<open>SIGTERM\<close>.
\<close>

definition posix :: host where
  "posix = \<lparr>has_send = False, pid = 4242,
            can_listen = (\<lambda>s. s \<noteq> ''SIGSTOP''),
            child_accepts = (\<lambda>s. s \<noteq> ''SIGWINCH''),
            self_accepts = (\<lambda>s. True),
            allSignals = [''SIGHUP'', ''SIGINT'', ''SIGSTOP'', ''SIGTERM'', ''SIGWINCH''],
            exitSignals = [''SIGHUP'', ''SIGINT'', ''SIGTERM''],
            watchdogPid = Some 4244\<rparr>"

definition forked :: host where
  "forked = posix\<lparr>has_send := True\<rparr>"

definition restricted :: host where
  "restricted = posix\<lparr>self_accepts := (\<lambda>s. s = ''SIGTERM'')\<rparr>"

definition idle :: run where
  "idle = \<lparr>sig_subs = [], msg_subs = [], exit_hooks = [], exit_loaded = False,
           exit_emitted = False, child_exit_subs = [], child_close_subs = [],
           child_msg_subs = [], listeners = [], done_flag = False, hangup_id = 0,
           awaiting = None, user = 0, trace = []\<rparr>"

text \<open>
  Cleanup callbacks: one that vetoes the parent's exit, one that settles later, one that
  answers at once, and one that counts its calls in the host program's state.
\<close>

definition veto :: jsval where
  "veto = Fun (\<lambda>code signal processInfo u. (Return (RBool False), u))"

definition later :: "retval \<Rightarrow> jsval" where
  "later v = Fun (\<lambda>code signal processInfo u. (Promise (Fulfilled v), u))"

definition answer :: "retval \<Rightarrow> jsval" where
  "answer v = Fun (\<lambda>code signal processInfo u. (Return v, u))"

definition tally :: jsval where
  "tally = Fun (\<lambda>code signal processInfo u. (Return (RBool False), Suc u))"

text \<open>A parent that already listens for messages and for \<open>SIGINT\<close>.\<close>

definition busy :: run where
  "busy = idle\<lparr>sig_subs := [(''SIGINT'', Foreign 0)], msg_subs := [Foreign 1]\<rparr>"

section \<open>The Signal Proxy never fails\<close>

lemma proxy_loop_result:
  "proxy_loop h sigs i r =
     Inr (r\<lparr>sig_subs := sig_subs r @ subscribed h sigs i,
            listeners := fold (\<lambda>(s, l). map_set s l) (subscribed h sigs i) (listeners r)\<rparr>)"
  by (induction sigs arbitrary: i r) (simp_all add: try_catch_def process_on_def)

lemma fst_map_set: "fst ` set (map_set k v kvs) = insert k (fst ` set kvs)"
proof (induction kvs)
  case Nil
  then show ?case by simp
next
  case (Cons x kvs)
  obtain k' v' where x: "x = (k', v')" by (cases x)
  show ?case
  proof (cases "k' = k")
    case True
    then show ?thesis by (simp add: x)
  next
    case False
    then show ?thesis using Cons.IH by (simp add: x insert_commute)
  qed
qed

lemma fst_fold_map_set:
  "fst ` set (fold (\<lambda>(s, l). map_set s l) new kvs) = fst ` set new \<union> fst ` set kvs"
proof (induction new arbitrary: kvs)
  case Nil
  then show ?case by simp
next
  case (Cons x new)
  obtain k v where x: "x = (k, v)" by (cases x)
  show ?case using Cons.IH [of "map_set k v kvs"] fst_map_set [of k v kvs] by (simp add: x)
qed

lemma fst_subscribed:
  "fst ` set (subscribed h sigs i) = {s \<in> set sigs. s \<noteq> [] \<and> can_listen h s}"
proof (induction sigs arbitrary: i)
  case Nil
  then show ?case by simp
next
  case (Cons s sigs)
  show ?case using Cons.IH [of "Suc i"] by auto
qed

lemma map_set_fresh: "k \<notin> fst ` set kvs \<Longrightarrow> map_set k v kvs = kvs @ [(k, v)]"
  by (induction kvs) auto

lemma fold_map_set_distinct:
  "distinct (map fst new) \<Longrightarrow> fst ` set new \<inter> fst ` set kvs = {} \<Longrightarrow>
   fold (\<lambda>(s, l). map_set s l) new kvs = kvs @ new"
proof (induction new arbitrary: kvs)
  case Nil
  then show ?case by simp
next
  case (Cons x new)
  obtain k v where x: "x = (k, v)" by (cases x)
  from Cons.prems have fresh: "k \<notin> fst ` set kvs" and d: "distinct (map fst new)"
    and k: "k \<notin> fst ` set new" and disj: "fst ` set new \<inter> fst ` set kvs = {}"
    by (auto simp: x)
  have "fst ` set new \<inter> fst ` set (kvs @ [(k, v)]) = {}"
    using k disj by auto
  from Cons.IH [OF d this] show ?case
    by (simp add: x map_set_fresh [OF fresh])
qed

lemma distinct_subscribed:
  "distinct sigs \<Longrightarrow> distinct (map fst (subscribed h sigs i))"
proof (induction sigs arbitrary: i)
  case Nil then show ?case by simp
next
  case (Cons s sigs)
  have "s \<notin> fst ` set (subscribed h sigs (Suc i))"
    using Cons.prems by (simp only: fst_subscribed) simp
  with Cons show ?case by simp
qed

text \<open>
  Claim C7. Whatever the catalog and the platform, \<open>proxySignals\<close> returns normally with
  its stop function: a signal the parent cannot subscribe to is left out of the Listener
  Registration Table and out of the parent's subscriptions, the signals after it are still
  registered, and the forwarding closure returns normally whether or not the child accepts
  the signal.
\<close>

theorem proxySignals_swallows_failures:
  "(\<exists>r'. proxySignals h r = Inr (Unproxy, r')
        \<and> fst ` set (listeners r') = {s \<in> set (allSignals h). s \<noteq> [] \<and> can_listen h s}
        \<and> sig_subs r' = sig_subs r @ subscribed h (allSignals h) 0)
   \<and> forward h sig r = Inr (if child_accepts h sig then log (ChildKill sig) r else r)"
  by (simp add: proxySignals_def proxy_loop_result fst_fold_map_set fst_subscribed
      forward_def try_catch_def child_kill_def)


theorem proxySignals_swallows_failures_witness:
  "(\<exists>r'. proxySignals posix busy = Inr (Unproxy, r')
        \<and> ''SIGSTOP'' \<notin> fst ` set (listeners r') \<and> ''SIGTERM'' \<in> fst ` set (listeners r')
        \<and> sig_subs r' = [(''SIGINT'', Foreign 0), (''SIGHUP'', Forward 0 ''SIGHUP''), (''SIGINT'', Forward 1 ''SIGINT''),
              (''SIGTERM'', Forward 3 ''SIGTERM''), (''SIGWINCH'', Forward 4 ''SIGWINCH'')])
   \<and> forward posix ''SIGWINCH'' busy = Inr busy"
proof -
  have sub: "subscribed posix (allSignals posix) 0 =
      [(''SIGHUP'', Forward 0 ''SIGHUP''), (''SIGINT'', Forward 1 ''SIGINT''),
       (''SIGTERM'', Forward 3 ''SIGTERM''), (''SIGWINCH'', Forward 4 ''SIGWINCH'')]"
    by (simp add: posix_def)
  have no: "\<not> can_listen posix ''SIGSTOP''" and yes: "can_listen posix ''SIGTERM''"
    and mem: "''SIGTERM'' \<in> set (allSignals posix)"
    and deaf: "\<not> child_accepts posix ''SIGWINCH''"
    by (simp_all add: posix_def)
  have pre: "sig_subs busy = [(''SIGINT'', Foreign 0)]"
    by (simp add: busy_def idle_def)
  from proxySignals_swallows_failures [of posix busy "''SIGWINCH''"]
  show ?thesis
    unfolding sub pre using no yes mem deaf by auto
qed

section \<open>What the handlers leave alone\<close>

lemma cleanup_calls_log:
  "cleanup_calls (log e r) = cleanup_calls r + (if is_cleanup_call e then 1 else 0)"
  by (simp add: cleanup_calls_def log_def)

lemma log_frame:
  "done_flag (log e r) = done_flag r
   \<and> child_close_subs (log e r) = child_close_subs r
   \<and> awaiting (log e r) = awaiting r
   \<and> user (log e r) = user r"
  by (simp add: log_def)

lemma deliver_all_Cons:
  "deliver_all h cl (ev # evs) r = deliver_all h cl evs (deliver h cl ev r)"
  by (simp add: deliver_all_def)

lemma load_loop_result:
  "load_loop h sigs r =
     r\<lparr>sig_subs := sig_subs r @ map (\<lambda>s. (s, SigExit s)) (filter (can_listen h) sigs)\<rparr>"
  by (induction sigs arbitrary: r) (simp_all add: try_catch_def process_on_def)

lemma unload_frame:
  "done_flag (unload h r) = done_flag r
   \<and> child_close_subs (unload h r) = child_close_subs r
   \<and> awaiting (unload h r) = awaiting r
   \<and> user (unload h r) = user r
   \<and> trace (unload h r) = trace r
   \<and> exit_hooks (unload h r) = exit_hooks r
   \<and> exit_emitted (unload h r) = exit_emitted r
   \<and> hangup_id (unload h r) = hangup_id r"
  by (simp add: unload_def)

lemma removeOnExit_frame:
  "done_flag (removeOnExit h r) = done_flag r
   \<and> child_close_subs (removeOnExit h r) = child_close_subs r
   \<and> awaiting (removeOnExit h r) = awaiting r
   \<and> user (removeOnExit h r) = user r
   \<and> trace (removeOnExit h r) = trace r
   \<and> cleanup_calls (removeOnExit h r) = cleanup_calls r"
  by (simp add: removeOnExit_def remove_hook_def Let_def unload_frame cleanup_calls_def)

lemma process_kill_frame:
  "done_flag (snd (process_kill h p sig r)) = done_flag r
   \<and> child_close_subs (snd (process_kill h p sig r)) = child_close_subs r
   \<and> awaiting (snd (process_kill h p sig r)) = awaiting r
   \<and> user (snd (process_kill h p sig r)) = user r
   \<and> cleanup_calls (snd (process_kill h p sig r)) = cleanup_calls r"
  by (simp add: process_kill_def log_frame cleanup_calls_log)

lemma process_exit_frame:
  "done_flag (snd (process_exit n r)) = done_flag r
   \<and> child_close_subs (snd (process_exit n r)) = child_close_subs r
   \<and> awaiting (snd (process_exit n r)) = awaiting r
   \<and> user (snd (process_exit n r)) = user r
   \<and> cleanup_calls (snd (process_exit n r)) = cleanup_calls r"
  by (cases n) (simp_all add: log_frame cleanup_calls_log)

lemma terminate_frame:
  "done_flag (snd (terminate h d r)) = done_flag r
   \<and> child_close_subs (snd (terminate h d r)) = child_close_subs r
   \<and> awaiting (snd (terminate h d r)) = awaiting r
   \<and> user (snd (terminate h d r)) = user r
   \<and> cleanup_calls (snd (terminate h d r)) = cleanup_calls r"
proof -
  obtain code sg where d: "d = (code, sg)" by (cases d)
  show ?thesis
  proof (cases sg)
    case None
    then show ?thesis using process_exit_frame [of "or_zero code" r] by (simp add: d)
  next
    case (Some signal)
    obtain e r2 where k: "process_kill h (pid h) signal (log (SetTimeout 2000) r) = (e, r2)"
      by (cases "process_kill h (pid h) signal (log (SetTimeout 2000) r)")
    from process_kill_frame [of h "pid h" signal "log (SetTimeout 2000) r"] k
    have f: "done_flag r2 = done_flag r" "child_close_subs r2 = child_close_subs r"
      "awaiting r2 = awaiting r" "user r2 = user r" "cleanup_calls r2 = cleanup_calls r"
      by (simp_all add: log_frame cleanup_calls_log)
    show ?thesis
      using process_kill_frame [of h "pid h" "''SIGTERM''" r2] f
        process_exit_frame [of "or_zero code" r]
      by (cases e) (simp_all add: d Some k Let_def)
  qed
qed

lemma reconcile_frame:
  "done_flag (snd (reconcile h res d r)) = done_flag r
   \<and> child_close_subs (snd (reconcile h res d r)) = child_close_subs r
   \<and> awaiting (snd (reconcile h res d r)) = awaiting r
   \<and> user (snd (reconcile h res d r)) = user r
   \<and> cleanup_calls (snd (reconcile h res d r)) = cleanup_calls r"
  by (simp add: reconcile_def Let_def terminate_frame removeOnExit_frame del: terminate.simps)

lemma close_handler_done:
  "done_flag r \<Longrightarrow> close_handler h cl code signal r = (None, r)"
  by (simp add: close_handler_def)

lemma close_handler_first:
  assumes "\<not> done_flag r"
  shows "done_flag (snd (close_handler h cl code signal r))
   \<and> child_close_subs (snd (close_handler h cl code signal r)) = child_close_subs r
   \<and> user (snd (close_handler h cl code signal r)) =
       snd (call_cleanup cl code signal (watchdogPid h) (user r))
   \<and> cleanup_calls (snd (close_handler h cl code signal r)) = Suc (cleanup_calls r)"
proof -
  obtain result u where c: "call_cleanup cl code signal (watchdogPid h) (user r) = (result, u)"
    by (cases "call_cleanup cl code signal (watchdogPid h) (user r)")
  let ?r1 = "log (CleanupCall code signal (watchdogPid h)) (r\<lparr>done_flag := True, user := u\<rparr>)"
  have f: "done_flag ?r1" "child_close_subs ?r1 = child_close_subs r" "user ?r1 = u"
    "cleanup_calls ?r1 = Suc (cleanup_calls r)"
    by (simp_all add: log_frame cleanup_calls_log) (simp add: cleanup_calls_def)
  show ?thesis
    using assms f reconcile_frame [of h _ "(code, signal)" ?r1]
    by (cases result) (simp_all add: close_handler_def c Let_def cleanup_calls_def)
qed

lemma resume_frame:
  "done_flag (snd (resume h r)) = done_flag r
   \<and> child_close_subs (snd (resume h r)) = child_close_subs r
   \<and> user (snd (resume h r)) = user r
   \<and> cleanup_calls (snd (resume h r)) = cleanup_calls r"
  by (simp add: resume_def reconcile_frame split: option.split settled.split prod.split)
     (simp add: cleanup_calls_def)

lemma childHangup_frame:
  "done_flag (snd (lift r (childHangup h r))) = done_flag r
   \<and> child_close_subs (snd (lift r (childHangup h r))) = child_close_subs r
   \<and> user (snd (lift r (childHangup h r))) = user r
   \<and> cleanup_calls (snd (lift r (childHangup h r))) = cleanup_calls r"
  by (simp add: lift_def childHangup_def try_catch_def child_kill_def log_frame cleanup_calls_log)

lemma run_hook_frame:
  "done_flag (snd (run_hook h hk r)) = done_flag r
   \<and> child_close_subs (snd (run_hook h hk r)) = child_close_subs r
   \<and> user (snd (run_hook h hk r)) = user r
   \<and> cleanup_calls (snd (run_hook h hk r)) = cleanup_calls r"
  using childHangup_frame [of r h]
  by (cases hk) (simp_all add: run_hook_def log_frame cleanup_calls_log)

lemma run_hooks_frame:
  "done_flag (snd (run_hooks h hks r)) = done_flag r
   \<and> child_close_subs (snd (run_hooks h hks r)) = child_close_subs r
   \<and> user (snd (run_hooks h hks r)) = user r
   \<and> cleanup_calls (snd (run_hooks h hks r)) = cleanup_calls r"
proof (induction hks arbitrary: r)
  case Nil
  then show ?case by simp
next
  case (Cons hk hks)
  obtain e r1 where c: "run_hook h hk r = (e, r1)"
    by (cases "run_hook h hk r")
  from run_hook_frame [of h hk r] c Cons.IH [of r1] show ?case
    by (cases e) simp_all
qed

lemma exit_emit_frame:
  "done_flag (snd (exit_emit h r)) = done_flag r
   \<and> child_close_subs (snd (exit_emit h r)) = child_close_subs r
   \<and> user (snd (exit_emit h r)) = user r
   \<and> cleanup_calls (snd (exit_emit h r)) = cleanup_calls r"
  using run_hooks_frame [of h "exit_hooks r" "r\<lparr>exit_emitted := True\<rparr>"]
  by (simp add: exit_emit_def cleanup_calls_def)

lemma sig_exit_frame:
  "done_flag (snd (sig_exit h sig r)) = done_flag r
   \<and> child_close_subs (snd (sig_exit h sig r)) = child_close_subs r
   \<and> user (snd (sig_exit h sig r)) = user r
   \<and> cleanup_calls (snd (sig_exit h sig r)) = cleanup_calls r"
proof -
  obtain e r1 where c: "exit_emit h (unload h r) = (e, r1)"
    by (cases "exit_emit h (unload h r)")
  from exit_emit_frame [of h "unload h r"] c
  have f: "done_flag r1 = done_flag r" "child_close_subs r1 = child_close_subs r"
    "user r1 = user r" "cleanup_calls r1 = cleanup_calls r"
    by (simp_all add: unload_frame cleanup_calls_def)
  with process_kill_frame [of h "pid h" sig r1] show ?thesis
    by (cases e) (simp_all add: sig_exit_def c)
qed

lemma surface_frame:
  "done_flag (surface (e, r)) = done_flag r
   \<and> child_close_subs (surface (e, r)) = child_close_subs r
   \<and> user (surface (e, r)) = user r
   \<and> cleanup_calls (surface (e, r)) = cleanup_calls r"
  by (cases e) (simp_all add: surface_def log_frame cleanup_calls_log)

lemma call_listener_frame:
  "\<not> (l = CloseHandler \<and> is_close ev) \<Longrightarrow>
   done_flag (snd (call_listener h cl ev l r)) = done_flag r
   \<and> child_close_subs (snd (call_listener h cl ev l r)) = child_close_subs r
   \<and> user (snd (call_listener h cl ev l r)) = user r
   \<and> cleanup_calls (snd (call_listener h cl ev l r)) = cleanup_calls r"
  by (cases "(h, cl, ev, l, r)" rule: call_listener.cases)
     (simp_all add: lift_def forward_def try_catch_def child_kill_def
        unproxy_def log_def cleanup_calls_def sig_exit_frame [unfolded cleanup_calls_def])

lemma emit_frame:
  "\<not> is_close ev \<Longrightarrow>
   done_flag (emit h cl ev ls r) = done_flag r
   \<and> child_close_subs (emit h cl ev ls r) = child_close_subs r
   \<and> user (emit h cl ev ls r) = user r
   \<and> cleanup_calls (emit h cl ev ls r) = cleanup_calls r"
proof (induction ls arbitrary: r)
  case Nil
  then show ?case by simp
next
  case (Cons l ls)
  obtain e r' where c: "call_listener h cl ev l r = (e, r')"
    by (cases "call_listener h cl ev l r")
  from call_listener_frame [of l ev h cl r] Cons.prems c
  have f: "done_flag r' = done_flag r" "child_close_subs r' = child_close_subs r"
    "user r' = user r" "cleanup_calls r' = cleanup_calls r"
    by simp_all
  show ?case
    using Cons.IH [OF Cons.prems, of r'] Cons.IH [OF Cons.prems, of "log (Uncaught (the e)) r'"] f
    by (cases e) (simp_all add: c log_frame cleanup_calls_log)
qed

lemma deliver_other:
  assumes "\<not> is_close ev"
  shows "done_flag (deliver h cl ev r) = done_flag r
   \<and> child_close_subs (deliver h cl ev r) = child_close_subs r
   \<and> user (deliver h cl ev r) = user r
   \<and> cleanup_calls (deliver h cl ev r) = cleanup_calls r"
proof -
  consider "ev = CleanupSettled" | "ev = ParentExit"
    | "ev \<noteq> CleanupSettled" "ev \<noteq> ParentExit"
    by blast
  then show ?thesis
  proof cases
    case 1
    obtain e r' where c: "resume h r = (e, r')"
      by (cases "resume h r")
    with resume_frame [of h r] surface_frame [of e r'] show ?thesis
      by (simp add: deliver_def 1)
  next
    case 2
    obtain e r' where c: "exit_emit h r = (e, r')"
      by (cases "exit_emit h r")
    with exit_emit_frame [of h r] surface_frame [of e r'] show ?thesis
      by (simp add: deliver_def 2)
  next
    case 3
    with emit_frame [OF assms, of h cl "subscribers ev r" r] show ?thesis
      by (simp add: deliver_def)
  qed
qed

lemma deliver_close_again:
  "child_close_subs r = [CloseHandler] \<Longrightarrow> done_flag r \<Longrightarrow>
   deliver h cl (ChildClose code signal) r = r"
  by (simp add: deliver_def close_handler_done)

lemma deliver_close_first:
  "child_close_subs r = [CloseHandler] \<Longrightarrow> \<not> done_flag r \<Longrightarrow>
   done_flag (deliver h cl (ChildClose code signal) r)
   \<and> child_close_subs (deliver h cl (ChildClose code signal) r) = [CloseHandler]
   \<and> user (deliver h cl (ChildClose code signal) r) =
       snd (call_cleanup cl code signal (watchdogPid h) (user r))
   \<and> cleanup_calls (deliver h cl (ChildClose code signal) r) = Suc (cleanup_calls r)"
  using close_handler_first [of r h cl code signal]
  by (cases "close_handler h cl code signal r")
     (auto simp add: deliver_def log_frame cleanup_calls_log split: option.split)

lemma first_close_None: "first_close evs = None \<longleftrightarrow> \<not> list_ex is_close evs"
  by (induction evs rule: first_close.induct) simp_all

lemma deliver_all_done:
  assumes "child_close_subs r = [CloseHandler]" and "done_flag r"
  shows "child_close_subs (deliver_all h cl evs r) = [CloseHandler]
   \<and> done_flag (deliver_all h cl evs r)
   \<and> user (deliver_all h cl evs r) = user r
   \<and> cleanup_calls (deliver_all h cl evs r) = cleanup_calls r"
  using assms
proof (induction evs arbitrary: r)
  case Nil
  then show ?case by (simp add: deliver_all_def)
next
  case (Cons ev evs)
  show ?case
  proof (cases "is_close ev")
    case False
    from deliver_other [OF False, of h cl r] Cons.prems
    have f: "done_flag (deliver h cl ev r)"
      "child_close_subs (deliver h cl ev r) = [CloseHandler]"
      "user (deliver h cl ev r) = user r"
      "cleanup_calls (deliver h cl ev r) = cleanup_calls r"
      by simp_all
    from Cons.IH [OF f(2) f(1)] f show ?thesis
      by (simp add: deliver_all_Cons)
  next
    case True
    then obtain code signal where ev: "ev = ChildClose code signal"
      by (cases ev) simp_all
    from deliver_close_again [OF Cons.prems, of h cl code signal]
    have same: "deliver h cl ev r = r" by (simp add: ev)
    from Cons.IH [OF Cons.prems] show ?thesis
      by (simp add: deliver_all_Cons same)
  qed
qed

lemma deliver_all_once:
  assumes "child_close_subs r = [CloseHandler]" and "\<not> done_flag r"
  shows "child_close_subs (deliver_all h cl evs r) = [CloseHandler]
   \<and> done_flag (deliver_all h cl evs r) = list_ex is_close evs
   \<and> user (deliver_all h cl evs r) =
       (case first_close evs of
          None \<Rightarrow> user r
        | Some (code, signal) \<Rightarrow> snd (call_cleanup cl code signal (watchdogPid h) (user r)))
   \<and> cleanup_calls (deliver_all h cl evs r) =
       cleanup_calls r + (if list_ex is_close evs then 1 else 0)"
  using assms
proof (induction evs arbitrary: r)
  case Nil
  then show ?case by (simp add: deliver_all_def)
next
  case (Cons ev evs)
  show ?case
  proof (cases "is_close ev")
    case False
    from deliver_other [OF False, of h cl r] Cons.prems
    have f: "\<not> done_flag (deliver h cl ev r)"
      "child_close_subs (deliver h cl ev r) = [CloseHandler]"
      "user (deliver h cl ev r) = user r"
      "cleanup_calls (deliver h cl ev r) = cleanup_calls r"
      by simp_all
    from False have fc: "first_close (ev # evs) = first_close evs"
      by (cases ev) simp_all
    from Cons.IH [OF f(2) f(1)] f False show ?thesis
      by (simp add: deliver_all_Cons fc split: option.split)
  next
    case True
    then obtain code signal where ev: "ev = ChildClose code signal"
      by (cases ev) simp_all
    from deliver_close_first [OF Cons.prems, of h cl code signal]
    have f: "done_flag (deliver h cl ev r)"
      "child_close_subs (deliver h cl ev r) = [CloseHandler]"
      "user (deliver h cl ev r) = snd (call_cleanup cl code signal (watchdogPid h) (user r))"
      "cleanup_calls (deliver h cl ev r) = Suc (cleanup_calls r)"
      by (simp_all add: ev)
    from deliver_all_done [OF f(2) f(1), of h cl evs] f show ?thesis
      by (simp add: deliver_all_Cons ev)
  qed
qed

section \<open>The options object is a fresh copy\<close>

lemma normalizeFgArgs_heap:
  "take (length hp) (snd (normalizeFgArgs fgArgs hp)) = hp
   \<and> length hp < length (snd (normalizeFgArgs fgArgs hp))
   \<and> fst (snd (snd (fst (normalizeFgArgs fgArgs hp)))) =
       Obj (length (snd (normalizeFgArgs fgArgs hp)) - 1)"
  by (simp add: normalizeFgArgs_def Let_def split_def alloc_def)

lemma map_of_map_set: "map_of (map_set k v kvs) k = Some v"
  by (induction kvs) auto

lemma normalizeFgArgs_opts:
  assumes "normalizeFgArgs fgArgs hp = ((program, args, spawnOpts, cleanup), hp1)"
  shows "spawnOpts = Obj (length hp1 - 1)" and "length hp < length hp1"
    and "take (length hp) hp1 = hp"
  using normalizeFgArgs_heap [of hp fgArgs] by (simp_all add: assms)

section \<open>What \<open>foregroundChild\<close> sets up\<close>

lemma onExit_result:
  "onExit h hk r =
     r\<lparr>sig_subs := sig_subs r @
          (if exit_loaded r then []
           else map (\<lambda>s. (s, SigExit s)) (filter (can_listen h) (exitSignals h))),
       exit_hooks := exit_hooks r @ [hk],
       exit_loaded := True\<rparr>"
  by (simp add: onExit_def load_def load_loop_result Let_def)

lemma foregroundChild_result:
  assumes n: "normalizeFgArgs fgArgs hp = ((program, args, spawnOpts, cleanup), hp1)"
  shows "foregroundChild h fgArgs hp r =
    Inr (cleanup,
         hp1[length hp1 - 1 := map_set ''stdio'' (stdio (has_send h)) (hp1 ! (length hp1 - 1))],
         r\<lparr>sig_subs := sig_subs (onExit h (ChildHangup (fresh_id (exit_hooks r))) r)
                        @ subscribed h (allSignals h) 0,
           msg_subs := (if has_send h then [RelayToChild] else msg_subs r),
           exit_hooks := exit_hooks r @ [ChildHangup (fresh_id (exit_hooks r))],
           exit_loaded := True,
           child_exit_subs := [Unproxy],
           child_close_subs := [CloseHandler],
           child_msg_subs := (if has_send h then [RelayToParent] else []),
           listeners := fold (\<lambda>(s, l). map_set s l) (subscribed h (allSignals h) 0) [],
           done_flag := False,
           hangup_id := fresh_id (exit_hooks r),
           awaiting := None,
           trace := trace r @
             [Spawn program args (map_set ''stdio'' (stdio (has_send h)) (hp1 ! (length hp1 - 1))),
              WatchdogSpawn]\<rparr>)"
proof -
  from normalizeFgArgs_opts [OF n]
  have o: "spawnOpts = Obj (length hp1 - 1)" and pos: "length hp1 - 1 < length hp1"
    by simp_all
  show ?thesis
    using pos
    by (simp add: foregroundChild_def n o Let_def spawn_def onExit_result log_def
        proxySignals_def proxy_loop_result watchdog_def)
qed

lemma foregroundChild_total:
  "\<exists>cl hp' r. foregroundChild h fgArgs hp r0 = Inr (cl, hp', r)"
proof -
  obtain program args spawnOpts cleanup hp1
    where "normalizeFgArgs fgArgs hp = ((program, args, spawnOpts, cleanup), hp1)"
    by (metis prod.exhaust)
  from foregroundChild_result [OF this] show ?thesis by blast
qed

lemma fresh_id_greater: "ChildHangup j \<in> set hks \<Longrightarrow> j < fresh_id hks"
  by (induction hks rule: fresh_id.induct) auto

lemma fresh_id_fresh: "ChildHangup (fresh_id hks) \<notin> set hks"
  using fresh_id_greater [of "fresh_id hks" hks] by auto

lemma foregroundChild_fresh:
  assumes "foregroundChild h fgArgs hp r0 = Inr (cl, hp', r)"
  shows "child_close_subs r = [CloseHandler]" and "\<not> done_flag r" and "awaiting r = None"
    and "child_exit_subs r = [Unproxy]"
    and "sig_subs r = sig_subs (onExit h (ChildHangup (hangup_id r)) r0)
                        @ subscribed h (allSignals h) 0"
    and "listeners r = fold (\<lambda>(s, l). map_set s l) (subscribed h (allSignals h) 0) []"
    and "msg_subs r = (if has_send h then [RelayToChild] else msg_subs r0)"
    and "child_msg_subs r = (if has_send h then [RelayToParent] else [])"
    and "exit_hooks r = exit_hooks r0 @ [ChildHangup (hangup_id r)]"
    and "ChildHangup (hangup_id r) \<notin> set (exit_hooks r0)"
    and "exit_loaded r" and "user r = user r0" and "exit_emitted r = exit_emitted r0"
proof -
  obtain program args spawnOpts cleanup hp1
    where n: "normalizeFgArgs fgArgs hp = ((program, args, spawnOpts, cleanup), hp1)"
    by (metis prod.exhaust)
  from foregroundChild_result [OF n, of h r0] assms
  have r: "r = r0\<lparr>sig_subs := sig_subs (onExit h (ChildHangup (fresh_id (exit_hooks r0))) r0)
                        @ subscribed h (allSignals h) 0,
           msg_subs := (if has_send h then [RelayToChild] else msg_subs r0),
           exit_hooks := exit_hooks r0 @ [ChildHangup (fresh_id (exit_hooks r0))],
           exit_loaded := True,
           child_exit_subs := [Unproxy],
           child_close_subs := [CloseHandler],
           child_msg_subs := (if has_send h then [RelayToParent] else []),
           listeners := fold (\<lambda>(s, l). map_set s l) (subscribed h (allSignals h) 0) [],
           done_flag := False,
           hangup_id := fresh_id (exit_hooks r0),
           awaiting := None,
           trace := trace r0 @
             [Spawn program args (map_set ''stdio'' (stdio (has_send h)) (hp1 ! (length hp1 - 1))),
              WatchdogSpawn]\<rparr>"
    by simp
  show "child_close_subs r = [CloseHandler]" and "\<not> done_flag r" and "awaiting r = None"
    and "child_exit_subs r = [Unproxy]"
    and "sig_subs r = sig_subs (onExit h (ChildHangup (hangup_id r)) r0)
                        @ subscribed h (allSignals h) 0"
    and "listeners r = fold (\<lambda>(s, l). map_set s l) (subscribed h (allSignals h) 0) []"
    and "msg_subs r = (if has_send h then [RelayToChild] else msg_subs r0)"
    and "child_msg_subs r = (if has_send h then [RelayToParent] else [])"
    and "exit_hooks r = exit_hooks r0 @ [ChildHangup (hangup_id r)]"
    and "ChildHangup (hangup_id r) \<notin> set (exit_hooks r0)"
    and "exit_loaded r" and "user r = user r0" and "exit_emitted r = exit_emitted r0"
    by (simp_all add: r fresh_id_fresh)
qed

section \<open>The close handler, run to its end\<close>

lemma new_effects_append: "trace r' = trace r @ es \<Longrightarrow> new_effects r r' = es"
  by (simp add: new_effects_def)

lemma closed_reconcile:
  assumes "\<not> done_flag r" and "awaiting r = None"
    and "yields (fst (call_cleanup cl code signal (watchdogPid h) (user r))) v"
  shows "closed h cl code signal r =
     reconcile h v (code, signal)
       (log (CleanupCall code signal (watchdogPid h))
          (r\<lparr>done_flag := True,
             user := snd (call_cleanup cl code signal (watchdogPid h) (user r))\<rparr>))"
proof -
  obtain res u where c: "call_cleanup cl code signal (watchdogPid h) (user r) = (res, u)"
    by (cases "call_cleanup cl code signal (watchdogPid h) (user r)")
  let ?r1 = "log (CleanupCall code signal (watchdogPid h)) (r\<lparr>done_flag := True, user := u\<rparr>)"
  have a: "awaiting ?r1 = None" using assms(2) by (simp add: log_def)
  from assms(3) c consider "res = Return v" | "res = Promise (Fulfilled v)"
    by (auto simp: yields_def)
  then show ?thesis
  proof cases
    case 1
    obtain e r2 where rc: "reconcile h v (code, signal) ?r1 = (e, r2)"
      by (cases "reconcile h v (code, signal) ?r1")
    from reconcile_frame [of h v "(code, signal)" ?r1] rc a
    have "awaiting r2 = None" by simp
    then show ?thesis using assms(1)
      by (cases e) (simp_all add: closed_def close_handler_def c 1 rc resume_def Let_def)
  next
    case 2
    have "?r1\<lparr>awaiting := None\<rparr> = ?r1" using a by simp
    then show ?thesis using assms(1)
      by (simp add: closed_def close_handler_def c 2 resume_def Let_def)
  qed
qed

lemma terminate_signal:
  "S \<noteq> [] \<Longrightarrow>
   terminate h (code, Some S) r =
     ((if self_accepts h S \<or> self_accepts h ''SIGTERM'' then None
       else Some (SelfKillError ''SIGTERM'')),
      r\<lparr>trace := trace r @ SetTimeout 2000 # SelfKill (pid h) S (self_accepts h S) #
         (if self_accepts h S then []
          else [SelfKill (pid h) ''SIGTERM'' (self_accepts h ''SIGTERM'')])\<rparr>)"
  by (simp add: process_kill_def log_def Let_def)

lemma terminate_code:
  "signal = None \<or> signal = Some [] \<Longrightarrow>
   terminate h (code, signal) r = process_exit (or_zero code) r"
  by auto

lemma exit_child_code:
  "process_exit (or_zero (map_option Integer code)) r =
     (None, log (Exit (case code of None \<Rightarrow> 0 | Some n \<Rightarrow> n)) r)"
  by (cases code) simp_all

lemma reconcile_veto:
  "reconcile h (RBool False) d r = (None, removeOnExit h r)"
  by (simp add: reconcile_def)

lemma reconcile_code:
  assumes "v \<noteq> RBool False" and "final_disposition v d = (c, None)"
  shows "reconcile h v d r = process_exit (or_zero c) (removeOnExit h r)"
  using assms by (simp add: reconcile_def terminate_code del: terminate.simps)

lemma reconcile_signal:
  assumes "v \<noteq> RBool False" and "final_disposition v d = (c, Some S)" and "S \<noteq> []"
  shows "trace (snd (reconcile h v d r)) =
     trace r @ SetTimeout 2000 # SelfKill (pid h) S (self_accepts h S) #
         (if self_accepts h S then []
          else [SelfKill (pid h) ''SIGTERM'' (self_accepts h ''SIGTERM'')])"
  using assms(1,2)
  by (simp add: reconcile_def terminate_signal [OF assms(3)] removeOnExit_frame
      del: terminate.simps)

lemma closed_trace:
  assumes "\<not> done_flag r" and "awaiting r = None"
    and "yields (fst (call_cleanup cl code signal (watchdogPid h) (user r))) v"
    and "\<And>r1. trace (snd (reconcile h v (code, signal) r1)) = trace r1 @ es"
  shows "new_effects r (snd (closed h cl code signal r)) = CleanupCall code signal (watchdogPid h) # es"
proof -
  have "trace (snd (closed h cl code signal r)) = trace r @ CleanupCall code signal (watchdogPid h) # es"
    by (simp add: closed_reconcile [OF assms(1,2,3)] assms(4)) (simp add: log_def)
  then show ?thesis by (rule new_effects_append)
qed

section \<open>The single-fire guard\<close>

text \<open>
  Claim C2. From the state in which \<open>foregroundChild\<close> returns, and whatever events
  arrive in whatever order, the cleanup callback \<open>f\<close> has been applied to the host
  program's state exactly once, with what the first close event carried and the
  watchdog's process id, if a close event was among them, and not at all otherwise; the
  handler body has run that often; and once a close event has been delivered, delivering
  another one changes nothing at all.
\<close>

theorem close_transition_fires_once:
  assumes "foregroundChild h fgArgs hp r0 = Inr (cl, hp', r)"
  shows "(\<forall>f. cl = Fun f \<longrightarrow>
            user (deliver_all h cl evs r) =
              (case first_close evs of
                 None \<Rightarrow> user r
               | Some (c, s) \<Rightarrow> snd (f c s (watchdogPid h) (user r))))
       \<and> cleanup_calls (deliver_all h cl evs r) =
           cleanup_calls r + (if list_ex is_close evs then 1 else 0)
       \<and> (list_ex is_close evs \<longrightarrow>
            deliver h cl (ChildClose code signal) (deliver_all h cl evs r) = deliver_all h cl evs r)"
proof -
  note f = foregroundChild_fresh [OF assms]
  from deliver_all_once [OF f(1) f(2), of h cl evs]
  have once: "child_close_subs (deliver_all h cl evs r) = [CloseHandler]"
    "done_flag (deliver_all h cl evs r) = list_ex is_close evs"
    "user (deliver_all h cl evs r) =
           (case first_close evs of
              None \<Rightarrow> user r
            | Some (c, s) \<Rightarrow> snd (call_cleanup cl c s (watchdogPid h) (user r)))"
    "cleanup_calls (deliver_all h cl evs r) =
       cleanup_calls r + (if list_ex is_close evs then 1 else 0)"
    by simp_all
  have "user (deliver_all h cl evs r) =
              (case first_close evs of
                 None \<Rightarrow> user r
               | Some (c, s) \<Rightarrow> snd (f c s (watchdogPid h) (user r)))"
    if "cl = Fun f" for f
    using once(3) unfolding that by (simp split: option.split)
  with deliver_close_again [OF once(1), of h cl code signal] once(2,4)
  show ?thesis by simp
qed

lemma normalize_node:
  "normalizeFgArgs [Str ''node'', Fun f] [] = ((Str ''node'', Arr [], Obj 2, Fun f), [[], [], []])"
  by (simp add: normalizeFgArgs_def element_def alloc_def)

theorem close_transition_fires_once_witness:
  "\<exists>hp' r. foregroundChild posix [Str ''node'', tally] [] idle = Inr (tally, hp', r)
     \<and> user r = 0
     \<and> user (deliver_all posix tally
          [ChildExit, ChildClose (Some 1) None, ChildClose (Some 1) None,
           ChildClose None (Some ''SIGINT'')] r) = 1
     \<and> deliver posix tally (ChildClose (Some 1) None)
          (deliver_all posix tally [ChildExit, ChildClose (Some 1) None] r) =
         deliver_all posix tally [ChildExit, ChildClose (Some 1) None] r"
proof -
  from foregroundChild_result [OF normalize_node, where h = posix and r = idle]
  obtain hp' r where fg: "foregroundChild posix [Str ''node'', tally] [] idle = Inr (tally, hp', r)"
    unfolding tally_def by blast
  from foregroundChild_fresh(12) [OF fg] have u: "user r = 0"
    by (simp add: idle_def)
  from close_transition_fires_once [OF fg,
      of "[ChildExit, ChildClose (Some 1) None, ChildClose (Some 1) None,
           ChildClose None (Some ''SIGINT'')]", THEN conjunct1, rule_format, OF tally_def]
  have a: "user (deliver_all posix tally
          [ChildExit, ChildClose (Some 1) None, ChildClose (Some 1) None,
           ChildClose None (Some ''SIGINT'')] r) = 1"
    by (simp add: u)
  from close_transition_fires_once [OF fg, of "[ChildExit, ChildClose (Some 1) None]" "Some 1" None,
      THEN conjunct2, THEN conjunct2]
  have b: "deliver posix tally (ChildClose (Some 1) None)
          (deliver_all posix tally [ChildExit, ChildClose (Some 1) None] r) =
         deliver_all posix tally [ChildExit, ChildClose (Some 1) None] r"
    by simp
  from fg u a b show ?thesis by blast
qed

section \<open>From the cleanup value to the parent's end\<close>

text \<open>
  Claim C3, as the code has it. When the cleanup callback hands back \<open>undefined\<close>, at once
  or through a promise, the final Disposition is the child's (code, signal) unchanged. A
  child that exited with code \<open>n\<close> makes the parent call \<open>process.exit n\<close> and nothing else
  (0 when there is neither code nor signal). A child killed by signal \<open>S\<close> makes the parent
  arm the keep-alive timer and send \<open>S\<close> to itself; when the platform refuses that send,
  the parent sends itself \<open>SIGTERM\<close> in its place.
\<close>

theorem undefined_cleanup_keeps_disposition:
  assumes "\<not> done_flag r" and "awaiting r = None"
    and "yields (fst (call_cleanup cl code signal (watchdogPid h) (user r))) RUndefined"
  shows "final_disposition RUndefined (code, signal) = (map_option Integer code, signal)
     \<and> (signal = None \<longrightarrow>
          new_effects r (snd (closed h cl code signal r)) =
            [CleanupCall code signal (watchdogPid h), Exit (case code of None \<Rightarrow> 0 | Some n \<Rightarrow> n)])
     \<and> (\<forall>S. signal = Some S \<and> S \<noteq> [] \<longrightarrow>
          new_effects r (snd (closed h cl code signal r)) =
            CleanupCall code signal (watchdogPid h) # SetTimeout 2000 #
              SelfKill (pid h) S (self_accepts h S) #
              (if self_accepts h S then []
               else [SelfKill (pid h) ''SIGTERM'' (self_accepts h ''SIGTERM'')]))"
proof -
  have "new_effects r (snd (closed h cl code signal r)) =
          [CleanupCall code signal (watchdogPid h), Exit (case code of None \<Rightarrow> 0 | Some n \<Rightarrow> n)]"
    if "signal = None"
  proof -
    have "trace (snd (reconcile h RUndefined (code, None) r1)) =
            trace r1 @ [Exit (case code of None \<Rightarrow> 0 | Some n \<Rightarrow> n)]" for r1
      by (simp add: reconcile_code [of RUndefined "(code, None)" "map_option Integer code"]
          exit_child_code log_def removeOnExit_frame)
    then have "trace (snd (reconcile h RUndefined (code, signal) r1)) =
            trace r1 @ [Exit (case code of None \<Rightarrow> 0 | Some n \<Rightarrow> n)]" for r1
      by (simp only: that)
    from closed_trace [OF assms this] show ?thesis .
  qed
  moreover have "new_effects r (snd (closed h cl code signal r)) =
            CleanupCall code signal (watchdogPid h) # SetTimeout 2000 #
              SelfKill (pid h) S (self_accepts h S) #
              (if self_accepts h S then []
               else [SelfKill (pid h) ''SIGTERM'' (self_accepts h ''SIGTERM'')])"
    if "signal = Some S" "S \<noteq> []" for S
  proof -
    have "trace (snd (reconcile h RUndefined (code, signal) r1)) =
            trace r1 @ SetTimeout 2000 # SelfKill (pid h) S (self_accepts h S) #
              (if self_accepts h S then []
               else [SelfKill (pid h) ''SIGTERM'' (self_accepts h ''SIGTERM'')])" for r1
      by (rule reconcile_signal [of RUndefined "(code, signal)" "map_option Integer code" S])
         (simp_all add: that)
    from closed_trace [OF assms this] show ?thesis .
  qed
  ultimately show ?thesis by simp
qed

theorem undefined_cleanup_keeps_disposition_witness:
  "\<not> done_flag idle \<and> awaiting idle = None
   \<and> yields (fst (call_cleanup defaultCleanup (Some 3) None (watchdogPid posix) (user idle))) RUndefined
   \<and> yields (fst (call_cleanup (later RUndefined) None (Some ''SIGINT'') (watchdogPid posix) (user idle)))
        RUndefined
   \<and> new_effects idle (snd (closed posix defaultCleanup (Some 3) None idle)) =
        [CleanupCall (Some 3) None (Some 4244), Exit 3]
   \<and> new_effects idle (snd (closed posix (later RUndefined) None (Some ''SIGINT'') idle)) =
        [CleanupCall None (Some ''SIGINT'') (Some 4244), SetTimeout 2000,
         SelfKill 4242 ''SIGINT'' True]"
proof -
  have a: "\<not> done_flag idle" and b: "awaiting idle = None"
    by (simp_all add: idle_def)
  have c: "yields (fst (call_cleanup defaultCleanup (Some 3) None (watchdogPid posix) (user idle))) RUndefined"
    by (simp add: yields_def defaultCleanup_def)
  have d: "yields (fst (call_cleanup (later RUndefined) None (Some ''SIGINT'') (watchdogPid posix) (user idle)))
        RUndefined"
    by (simp add: yields_def later_def)
  have p: "watchdogPid posix = Some 4244" "pid posix = 4242" "self_accepts posix ''SIGINT''"
    by (simp_all add: posix_def)
  from undefined_cleanup_keeps_disposition [OF a b c, THEN conjunct2, THEN conjunct1]
  have x: "new_effects idle (snd (closed posix defaultCleanup (Some 3) None idle)) =
        [CleanupCall (Some 3) None (Some 4244), Exit 3]"
    by (simp add: p)
  from undefined_cleanup_keeps_disposition [OF a b d, THEN conjunct2, THEN conjunct2]
  have y: "new_effects idle (snd (closed posix (later RUndefined) None (Some ''SIGINT'') idle)) =
        [CleanupCall None (Some ''SIGINT'') (Some 4244), SetTimeout 2000,
         SelfKill 4242 ''SIGINT'' True]"
    by (simp add: p)
  from a b c d x y show ?thesis by blast
qed

lemma sample_closed:
  assumes "yields (fst (call_cleanup cl code signal (watchdogPid h) (user idle))) v"
    and "\<And>r1. trace (snd (reconcile h v (code, signal) r1)) = trace r1 @ es"
  shows "new_effects idle (snd (closed h cl code signal idle)) =
           CleanupCall code signal (watchdogPid h) # es"
proof -
  have a: "\<not> done_flag idle" and b: "awaiting idle = None"
    by (simp_all add: idle_def)
  from closed_trace [OF a b assms] show ?thesis .
qed

text \<open>
  Claim C3 as stated fails: on a platform that lets the parent send itself nothing but
  \<open>SIGTERM\<close>, a child killed by \<open>SIGHUP\<close> and a cleanup callback that hands back nothing
  leave the parent with a refused \<open>SIGHUP\<close> and a delivered \<open>SIGTERM\<close>.
\<close>

theorem parent_killed_by_fallback_signal:
  "new_effects idle (snd (closed restricted defaultCleanup None (Some ''SIGHUP'') idle)) =
     [CleanupCall None (Some ''SIGHUP'') (Some 4244), SetTimeout 2000,
      SelfKill 4242 ''SIGHUP'' False, SelfKill 4242 ''SIGTERM'' True]"
proof -
  have y: "yields (fst (call_cleanup defaultCleanup None (Some ''SIGHUP'') (watchdogPid restricted) (user idle)))
        RUndefined"
    by (simp add: yields_def defaultCleanup_def)
  have p: "watchdogPid restricted = Some 4244" "pid restricted = 4242"
    "\<not> self_accepts restricted ''SIGHUP''" "self_accepts restricted ''SIGTERM''"
    by (simp_all add: posix_def restricted_def)
  have ne: "''SIGHUP'' \<noteq> []" by simp
  have "trace (snd (reconcile restricted RUndefined (None, Some ''SIGHUP'') r1)) =
          trace r1 @ [SetTimeout 2000, SelfKill 4242 ''SIGHUP'' False, SelfKill 4242 ''SIGTERM'' True]"
    for r1
    using reconcile_signal [of RUndefined "(None, Some ''SIGHUP'')" None "''SIGHUP''" restricted r1]
    by (simp add: p)
  from sample_closed [OF y this] show ?thesis
    by (simp add: p)
qed

text \<open>
  Claim C4, as the code has it. When the cleanup callback hands back an integer \<open>N\<close>, the
  final Disposition is (code \<open>N\<close>, no signal) and the parent calls \<open>process.exit N\<close> and
  never \<open>process.kill\<close>; when it hands back \<open>NaN\<close> the parent calls \<open>process.exit 0\<close>. When
  it hands back a signal name \<open>S\<close>, the final Disposition is (no code, signal \<open>S\<close>) and the
  parent arms the keep-alive timer and sends itself \<open>S\<close>, and \<open>SIGTERM\<close> after it if the
  platform refuses \<open>S\<close>, and never calls \<open>process.exit\<close>. This holds for every Disposition
  of the child.
\<close>

theorem cleanup_value_overrides_disposition:
  assumes "\<not> done_flag r" and "awaiting r = None"
  shows "(yields (fst (call_cleanup cl code signal (watchdogPid h) (user r))) (RNum (Integer N)) \<longrightarrow>
            final_disposition (RNum (Integer N)) (code, signal) = (Some (Integer N), None)
            \<and> new_effects r (snd (closed h cl code signal r)) =
                 [CleanupCall code signal (watchdogPid h), Exit N])
       \<and> (yields (fst (call_cleanup cl code signal (watchdogPid h) (user r))) (RNum NotANumber) \<longrightarrow>
            new_effects r (snd (closed h cl code signal r)) =
                 [CleanupCall code signal (watchdogPid h), Exit 0])
       \<and> (yields (fst (call_cleanup cl code signal (watchdogPid h) (user r))) (RStr S) \<and> S \<noteq> [] \<longrightarrow>
            final_disposition (RStr S) (code, signal) = (None, Some S)
            \<and> new_effects r (snd (closed h cl code signal r)) =
                 CleanupCall code signal (watchdogPid h) # SetTimeout 2000 #
                   SelfKill (pid h) S (self_accepts h S) #
                   (if self_accepts h S then []
                    else [SelfKill (pid h) ''SIGTERM'' (self_accepts h ''SIGTERM'')]))"
proof -
  have "new_effects r (snd (closed h cl code signal r)) = [CleanupCall code signal (watchdogPid h), Exit N]"
    if y: "yields (fst (call_cleanup cl code signal (watchdogPid h) (user r))) (RNum (Integer N))"
  proof -
    have "trace (snd (reconcile h (RNum (Integer N)) (code, signal) r1)) = trace r1 @ [Exit N]" for r1
      by (simp add: reconcile_code [of "RNum (Integer N)" "(code, signal)" "Some (Integer N)"]
          log_def removeOnExit_frame)
    from closed_trace [OF assms y this] show ?thesis .
  qed
  moreover have "new_effects r (snd (closed h cl code signal r)) = [CleanupCall code signal (watchdogPid h), Exit 0]"
    if y: "yields (fst (call_cleanup cl code signal (watchdogPid h) (user r))) (RNum NotANumber)"
  proof -
    have "trace (snd (reconcile h (RNum NotANumber) (code, signal) r1)) = trace r1 @ [Exit 0]" for r1
      by (simp add: reconcile_code [of "RNum NotANumber" "(code, signal)" "Some NotANumber"]
          log_def removeOnExit_frame)
    from closed_trace [OF assms y this] show ?thesis .
  qed
  moreover have "new_effects r (snd (closed h cl code signal r)) =
                 CleanupCall code signal (watchdogPid h) # SetTimeout 2000 #
                   SelfKill (pid h) S (self_accepts h S) #
                   (if self_accepts h S then []
                    else [SelfKill (pid h) ''SIGTERM'' (self_accepts h ''SIGTERM'')])"
    if y: "yields (fst (call_cleanup cl code signal (watchdogPid h) (user r))) (RStr S)" and s: "S \<noteq> []"
  proof -
    have "trace (snd (reconcile h (RStr S) (code, signal) r1)) = trace r1 @ SetTimeout 2000 #
                   SelfKill (pid h) S (self_accepts h S) #
                   (if self_accepts h S then []
                    else [SelfKill (pid h) ''SIGTERM'' (self_accepts h ''SIGTERM'')])" for r1
      by (rule reconcile_signal [of "RStr S" "(code, signal)" None S]) (simp_all add: s)
    from closed_trace [OF assms y this] show ?thesis .
  qed
  ultimately show ?thesis by simp
qed

theorem cleanup_value_overrides_disposition_witness:
  "\<not> done_flag idle \<and> awaiting idle = None
   \<and> yields (fst (call_cleanup (later (RNum (Integer 42))) None (Some ''SIGKILL'') (watchdogPid posix) (user idle)))
        (RNum (Integer 42))
   \<and> new_effects idle (snd (closed posix (later (RNum (Integer 42))) None (Some ''SIGKILL'') idle)) =
        [CleanupCall None (Some ''SIGKILL'') (Some 4244), Exit 42]
   \<and> yields (fst (call_cleanup (answer (RNum NotANumber)) (Some 3) None (watchdogPid posix) (user idle)))
        (RNum NotANumber)
   \<and> new_effects idle (snd (closed posix (answer (RNum NotANumber)) (Some 3) None idle)) =
        [CleanupCall (Some 3) None (Some 4244), Exit 0]
   \<and> yields (fst (call_cleanup (later (RStr ''SIGHUP'')) (Some 0) None (watchdogPid posix) (user idle)))
        (RStr ''SIGHUP'')
   \<and> new_effects idle (snd (closed posix (later (RStr ''SIGHUP'')) (Some 0) None idle)) =
        [CleanupCall (Some 0) None (Some 4244), SetTimeout 2000, SelfKill 4242 ''SIGHUP'' True]"
proof -
  have a: "\<not> done_flag idle" and b: "awaiting idle = None"
    by (simp_all add: idle_def)
  have c: "yields (fst (call_cleanup (later (RNum (Integer 42))) None (Some ''SIGKILL'') (watchdogPid posix) (user idle)))
        (RNum (Integer 42))"
    and d: "yields (fst (call_cleanup (later (RStr ''SIGHUP'')) (Some 0) None (watchdogPid posix) (user idle)))
        (RStr ''SIGHUP'')"
    and e: "yields (fst (call_cleanup (answer (RNum NotANumber)) (Some 3) None (watchdogPid posix) (user idle)))
        (RNum NotANumber)"
    by (simp_all add: yields_def later_def answer_def)
  have p: "watchdogPid posix = Some 4244" "pid posix = 4242" "self_accepts posix ''SIGHUP''"
    by (simp_all add: posix_def)
  from cleanup_value_overrides_disposition [OF a b,
      where cl = "later (RNum (Integer 42))" and code = None and signal = "Some ''SIGKILL''"
        and h = posix and N = 42,
      THEN conjunct1, rule_format, OF c, THEN conjunct2]
  have x: "new_effects idle (snd (closed posix (later (RNum (Integer 42))) None (Some ''SIGKILL'') idle)) =
        [CleanupCall None (Some ''SIGKILL'') (Some 4244), Exit 42]"
    by (simp add: p)
  from cleanup_value_overrides_disposition [OF a b,
      where cl = "answer (RNum NotANumber)" and code = "Some 3" and signal = None and h = posix,
      THEN conjunct2, THEN conjunct1, rule_format, OF e]
  have z: "new_effects idle (snd (closed posix (answer (RNum NotANumber)) (Some 3) None idle)) =
        [CleanupCall (Some 3) None (Some 4244), Exit 0]"
    by (simp add: p)
  have ne: "''SIGHUP'' \<noteq> []" by simp
  from cleanup_value_overrides_disposition [OF a b,
      where cl = "later (RStr ''SIGHUP'')" and code = "Some 0" and signal = None and h = posix
        and S = "''SIGHUP''",
      THEN conjunct2, THEN conjunct2, rule_format, OF conjI [OF d ne], THEN conjunct2]
  have y: "new_effects idle (snd (closed posix (later (RStr ''SIGHUP'')) (Some 0) None idle)) =
        [CleanupCall (Some 0) None (Some 4244), SetTimeout 2000, SelfKill 4242 ''SIGHUP'' True]"
    by (simp add: p)
  from a b c d e x y z show ?thesis by blast
qed

text \<open>
  Claim C4 as stated fails twice. A cleanup callback that hands back the number \<open>NaN\<close>
  makes the parent exit with code 0. A cleanup callback that hands back \<open>SIGHUP\<close> on a
  platform that lets the parent send itself nothing but \<open>SIGTERM\<close> leaves the parent with
  a refused \<open>SIGHUP\<close> and a delivered \<open>SIGTERM\<close>.
\<close>

theorem cleanup_value_not_always_honoured:
  "new_effects idle (snd (closed posix (answer (RNum NotANumber)) (Some 3) None idle)) =
     [CleanupCall (Some 3) None (Some 4244), Exit 0]
   \<and> new_effects idle (snd (closed restricted (answer (RStr ''SIGHUP'')) (Some 0) None idle)) =
     [CleanupCall (Some 0) None (Some 4244), SetTimeout 2000,
      SelfKill 4242 ''SIGHUP'' False, SelfKill 4242 ''SIGTERM'' True]"
proof -
  have y: "yields (fst (call_cleanup (answer (RNum NotANumber)) (Some 3) None (watchdogPid posix) (user idle)))
        (RNum NotANumber)"
    and z: "yields (fst (call_cleanup (answer (RStr ''SIGHUP'')) (Some 0) None (watchdogPid restricted) (user idle)))
        (RStr ''SIGHUP'')"
    by (simp_all add: yields_def answer_def)
  have p: "watchdogPid posix = Some 4244" "watchdogPid restricted = Some 4244" "pid restricted = 4242"
    "\<not> self_accepts restricted ''SIGHUP''" "self_accepts restricted ''SIGTERM''"
    by (simp_all add: posix_def restricted_def)
  have "trace (snd (reconcile posix (RNum NotANumber) (Some 3, None) r1)) = trace r1 @ [Exit 0]" for r1
    by (simp add: reconcile_code [of "RNum NotANumber" "(Some 3, None)" "Some NotANumber"]
        log_def removeOnExit_frame)
  from sample_closed [OF y this]
  have a: "new_effects idle (snd (closed posix (answer (RNum NotANumber)) (Some 3) None idle)) =
     [CleanupCall (Some 3) None (Some 4244), Exit 0]"
    by (simp add: p)
  have "trace (snd (reconcile restricted (RStr ''SIGHUP'') (Some 0, None) r1)) =
          trace r1 @ [SetTimeout 2000, SelfKill 4242 ''SIGHUP'' False, SelfKill 4242 ''SIGTERM'' True]"
    for r1
    using reconcile_signal [of "RStr ''SIGHUP''" "(Some 0, None)" None "''SIGHUP''" restricted r1]
    by (simp add: p)
  from sample_closed [OF z this]
  have b: "new_effects idle (snd (closed restricted (answer (RStr ''SIGHUP'')) (Some 0) None idle)) =
     [CleanupCall (Some 0) None (Some 4244), SetTimeout 2000,
      SelfKill 4242 ''SIGHUP'' False, SelfKill 4242 ''SIGTERM'' True]"
    by (simp add: p)
  from a b show ?thesis by blast
qed

text \<open>
  Claim C5. When the cleanup callback hands back \<open>false\<close>, at once or through a promise, the
  close handler returns normally after unregistering the parent-exit hook: whatever the
  child's Disposition, the only thing observed is the call of the callback; the parent
  sends itself no signal and does not call \<open>process.exit\<close>.
\<close>

theorem false_cleanup_keeps_parent_alive:
  assumes "\<not> done_flag r" and "awaiting r = None"
    and "yields (fst (call_cleanup cl code signal (watchdogPid h) (user r))) (RBool False)"
  shows "closed h cl code signal r =
           (None, removeOnExit h
                    (log (CleanupCall code signal (watchdogPid h))
                       (r\<lparr>done_flag := True,
                          user := snd (call_cleanup cl code signal (watchdogPid h) (user r))\<rparr>)))
       \<and> new_effects r (snd (closed h cl code signal r)) = [CleanupCall code signal (watchdogPid h)]"
proof -
  have c: "closed h cl code signal r =
           (None, removeOnExit h
                    (log (CleanupCall code signal (watchdogPid h))
                       (r\<lparr>done_flag := True,
                          user := snd (call_cleanup cl code signal (watchdogPid h) (user r))\<rparr>)))"
    by (simp add: closed_reconcile [OF assms] reconcile_veto)
  have "trace (snd (closed h cl code signal r)) = trace r @ [CleanupCall code signal (watchdogPid h)]"
    by (simp add: c removeOnExit_frame log_def)
  then have "new_effects r (snd (closed h cl code signal r)) = [CleanupCall code signal (watchdogPid h)]"
    by (rule new_effects_append)
  with c show ?thesis by simp
qed

theorem false_cleanup_keeps_parent_alive_witness:
  "\<not> done_flag idle \<and> awaiting idle = None
   \<and> yields (fst (call_cleanup veto None (Some ''SIGTERM'') (watchdogPid posix) (user idle))) (RBool False)
   \<and> yields (fst (call_cleanup (later (RBool False)) (Some 1) None (watchdogPid posix) (user idle)))
        (RBool False)
   \<and> new_effects idle (snd (closed posix veto None (Some ''SIGTERM'') idle)) =
        [CleanupCall None (Some ''SIGTERM'') (Some 4244)]
   \<and> closed posix (later (RBool False)) (Some 1) None idle =
        (None, idle\<lparr>done_flag := True, trace := [CleanupCall (Some 1) None (Some 4244)]\<rparr>)"
proof -
  have a: "\<not> done_flag idle" and b: "awaiting idle = None"
    by (simp_all add: idle_def)
  have c: "yields (fst (call_cleanup veto None (Some ''SIGTERM'') (watchdogPid posix) (user idle))) (RBool False)"
    and d: "yields (fst (call_cleanup (later (RBool False)) (Some 1) None (watchdogPid posix) (user idle)))
        (RBool False)"
    by (simp_all add: yields_def later_def veto_def)
  have p: "watchdogPid posix = Some 4244"
    by (simp add: posix_def)
  have u: "snd (call_cleanup (later (RBool False)) (Some 1) None (Some 4244) (user idle)) = 0"
    by (simp add: later_def idle_def)
  have e: "removeOnExit posix (log (CleanupCall (Some 1) None (Some 4244))
             (idle\<lparr>done_flag := True, user := 0\<rparr>)) =
      idle\<lparr>done_flag := True, trace := [CleanupCall (Some 1) None (Some 4244)]\<rparr>"
    by (simp add: removeOnExit_def remove_hook_def unload_def log_def idle_def)
  from false_cleanup_keeps_parent_alive [OF a b c, THEN conjunct2]
  have x: "new_effects idle (snd (closed posix veto None (Some ''SIGTERM'') idle)) =
        [CleanupCall None (Some ''SIGTERM'') (Some 4244)]"
    by (simp add: p)
  from false_cleanup_keeps_parent_alive [OF a b d, THEN conjunct1]
  have y: "closed posix (later (RBool False)) (Some 1) None idle =
        (None, idle\<lparr>done_flag := True, trace := [CleanupCall (Some 1) None (Some 4244)]\<rparr>)"
    by (simp add: p u e)
  from a b c d x y show ?thesis by blast
qed

text \<open>
  Claim C6, as the code has it. With a final Disposition that carries a signal, the
  reconciler arms the keep-alive timer and then calls \<open>process.kill\<close> on its own process
  id with that signal; if that call throws it calls \<open>process.kill\<close> with \<open>SIGTERM\<close> once,
  and if that throws too the error leaves the handler: one call when the first is
  accepted, two otherwise, never more. With no signal (or an empty one) the parent calls
  \<open>process.exit\<close> with the code when the code is an integer, and with 0 when the code is
  absent, null or \<open>NaN\<close>; for any other number \<open>process.exit\<close> throws.
\<close>

theorem terminal_step:
  "(S \<noteq> [] \<longrightarrow>
      terminate h (code, Some S) r =
        ((if self_accepts h S \<or> self_accepts h ''SIGTERM'' then None
          else Some (SelfKillError ''SIGTERM'')),
         r\<lparr>trace := trace r @ SetTimeout 2000 # SelfKill (pid h) S (self_accepts h S) #
            (if self_accepts h S then []
             else [SelfKill (pid h) ''SIGTERM'' (self_accepts h ''SIGTERM'')])\<rparr>)
      \<and> length (filter is_self_kill (new_effects r (snd (terminate h (code, Some S) r)))) =
          (if self_accepts h S then 1 else 2))
   \<and> (signal = None \<or> signal = Some [] \<longrightarrow>
        terminate h (code, signal) r =
          (case code of
             None \<Rightarrow> (None, log (Exit 0) r)
           | Some (Integer n) \<Rightarrow> (None, log (Exit n) r)
           | Some NotANumber \<Rightarrow> (None, log (Exit 0) r)
           | Some NonInteger \<Rightarrow> (Some ExitCodeError, r)))"
proof -
  have "terminate h (code, signal) r =
          (case code of
             None \<Rightarrow> (None, log (Exit 0) r)
           | Some (Integer n) \<Rightarrow> (None, log (Exit n) r)
           | Some NotANumber \<Rightarrow> (None, log (Exit 0) r)
           | Some NonInteger \<Rightarrow> (Some ExitCodeError, r))"
    if "signal = None \<or> signal = Some []"
    unfolding terminate_code [OF that]
    by (simp split: option.split number.split)
  moreover have "length (filter is_self_kill (new_effects r (snd (terminate h (code, Some S) r)))) =
          (if self_accepts h S then 1 else 2)"
    if "S \<noteq> []"
    by (simp add: terminate_signal [OF that] new_effects_def del: terminate.simps)
  ultimately show ?thesis
    using terminate_signal [of S h code r] by blast
qed

theorem terminal_step_witness:
  "terminate restricted (None, Some ''SIGHUP'') idle =
     (None, idle\<lparr>trace := [SetTimeout 2000, SelfKill 4242 ''SIGHUP'' False,
                          SelfKill 4242 ''SIGTERM'' True]\<rparr>)
   \<and> terminate posix (None, Some ''SIGINT'') idle =
     (None, idle\<lparr>trace := [SetTimeout 2000, SelfKill 4242 ''SIGINT'' True]\<rparr>)
   \<and> terminate posix (None, None) idle = (None, idle\<lparr>trace := [Exit 0]\<rparr>)
   \<and> terminate posix (Some (Integer 7), None) idle = (None, idle\<lparr>trace := [Exit 7]\<rparr>)"
proof -
  have p: "pid restricted = 4242" "pid posix = 4242" "\<not> self_accepts restricted ''SIGHUP''"
    "self_accepts restricted ''SIGTERM''" "self_accepts posix ''SIGINT''"
    by (simp_all add: posix_def restricted_def)
  have l: "log (Exit 0) idle = idle\<lparr>trace := [Exit 0]\<rparr>"
    "log (Exit 7) idle = idle\<lparr>trace := [Exit 7]\<rparr>" "trace idle = []"
    by (simp_all add: log_def idle_def)
  have a: "terminate restricted (None, Some ''SIGHUP'') idle =
     (None, idle\<lparr>trace := [SetTimeout 2000, SelfKill 4242 ''SIGHUP'' False,
                          SelfKill 4242 ''SIGTERM'' True]\<rparr>)"
    using terminal_step [where S = "''SIGHUP''" and h = restricted and code = None and r = idle,
        THEN conjunct1]
    by (simp add: p l del: terminate.simps)
  have b: "terminate posix (None, Some ''SIGINT'') idle =
     (None, idle\<lparr>trace := [SetTimeout 2000, SelfKill 4242 ''SIGINT'' True]\<rparr>)"
    using terminal_step [where S = "''SIGINT''" and h = posix and code = None and r = idle,
        THEN conjunct1]
    by (simp add: p l del: terminate.simps)
  have c: "terminate posix (None, None) idle = (None, idle\<lparr>trace := [Exit 0]\<rparr>)"
    using terminal_step [where signal = None and h = posix and code = None and r = idle, THEN conjunct2]
    by (simp add: l del: terminate.simps)
  have d: "terminate posix (Some (Integer 7), None) idle = (None, idle\<lparr>trace := [Exit 7]\<rparr>)"
    using terminal_step [where signal = None and h = posix and code = "Some (Integer 7)" and r = idle,
        THEN conjunct2]
    by (simp add: l del: terminate.simps)
  from a b c d show ?thesis by blast
qed

text \<open>
  Claim C6 as stated fails where the final Disposition carries a code that is not an
  integer: with the code \<open>NaN\<close>, which is neither absent nor null, the parent exits with
  0; with any other such number \<open>process.exit\<close> throws and the parent does not exit.
\<close>

theorem code_not_always_the_exit_code:
  "terminate posix (Some NotANumber, None) idle = (None, idle\<lparr>trace := [Exit 0]\<rparr>)
   \<and> terminate posix (Some NonInteger, None) idle = (Some ExitCodeError, idle)"
  by (simp add: log_def idle_def)

section \<open>What touches the parent's subscriptions\<close>

lemma filter_remove1: "\<not> P x \<Longrightarrow> filter P (remove1 x xs) = filter P xs"
  by (induction xs) auto

lemma filter_removeListener:
  "\<not> P (sig, l) \<Longrightarrow> filter P (removeListener sig l subs) = filter P subs"
  by (simp add: removeListener_def rev_filter [symmetric] filter_remove1)

lemma filter_unload_fold:
  "filter is_forward (fold (\<lambda>sig subs. removeListener sig (SigExit sig) subs) sigs subs) =
     filter is_forward subs"
  by (induction sigs arbitrary: subs) (simp_all add: filter_removeListener)

lemma log_subs:
  "sig_subs (log e r) = sig_subs r \<and> msg_subs (log e r) = msg_subs r
   \<and> listeners (log e r) = listeners r \<and> exit_hooks (log e r) = exit_hooks r
   \<and> hangup_id (log e r) = hangup_id r \<and> exit_loaded (log e r) = exit_loaded r"
  by (simp add: log_def)

lemma unload_subs:
  "filter is_forward (sig_subs (unload h r)) = filter is_forward (sig_subs r)
   \<and> msg_subs (unload h r) = msg_subs r
   \<and> listeners (unload h r) = listeners r"
  by (simp add: unload_def filter_unload_fold)

lemma removeOnExit_subs:
  "filter is_forward (sig_subs (removeOnExit h r)) = filter is_forward (sig_subs r)
   \<and> msg_subs (removeOnExit h r) = msg_subs r
   \<and> listeners (removeOnExit h r) = listeners r
   \<and> exit_hooks (removeOnExit h r) = remove1 (ChildHangup (hangup_id r)) (exit_hooks r)"
  by (simp add: removeOnExit_def remove_hook_def Let_def unload_subs unload_frame)

lemma process_kill_subs:
  "sig_subs (snd (process_kill h p sig r)) = sig_subs r
   \<and> msg_subs (snd (process_kill h p sig r)) = msg_subs r
   \<and> listeners (snd (process_kill h p sig r)) = listeners r
   \<and> exit_hooks (snd (process_kill h p sig r)) = exit_hooks r"
  by (simp add: process_kill_def log_subs)

lemma process_exit_subs:
  "sig_subs (snd (process_exit n r)) = sig_subs r
   \<and> msg_subs (snd (process_exit n r)) = msg_subs r
   \<and> listeners (snd (process_exit n r)) = listeners r
   \<and> exit_hooks (snd (process_exit n r)) = exit_hooks r"
  by (cases n) (simp_all add: log_subs)

lemma terminate_subs:
  "sig_subs (snd (terminate h d r)) = sig_subs r
   \<and> msg_subs (snd (terminate h d r)) = msg_subs r
   \<and> listeners (snd (terminate h d r)) = listeners r
   \<and> exit_hooks (snd (terminate h d r)) = exit_hooks r"
proof -
  obtain code sg where d: "d = (code, sg)" by (cases d)
  show ?thesis
  proof (cases sg)
    case None
    then show ?thesis using process_exit_subs [of "or_zero code" r] by (simp add: d)
  next
    case (Some signal)
    obtain e r2 where k: "process_kill h (pid h) signal (log (SetTimeout 2000) r) = (e, r2)"
      by (cases "process_kill h (pid h) signal (log (SetTimeout 2000) r)")
    from process_kill_subs [of h "pid h" signal "log (SetTimeout 2000) r"] k
    have f: "sig_subs r2 = sig_subs r" "msg_subs r2 = msg_subs r"
      "listeners r2 = listeners r" "exit_hooks r2 = exit_hooks r"
      by (simp_all add: log_subs)
    show ?thesis
      using process_kill_subs [of h "pid h" "''SIGTERM''" r2] f
        process_exit_subs [of "or_zero code" r]
      by (cases e) (simp_all add: d Some k Let_def)
  qed
qed

lemma reconcile_subs:
  "filter is_forward (sig_subs (snd (reconcile h res d r))) = filter is_forward (sig_subs r)
   \<and> msg_subs (snd (reconcile h res d r)) = msg_subs r
   \<and> listeners (snd (reconcile h res d r)) = listeners r
   \<and> exit_hooks (snd (reconcile h res d r)) = remove1 (ChildHangup (hangup_id r)) (exit_hooks r)"
  by (simp add: reconcile_def Let_def terminate_subs removeOnExit_subs del: terminate.simps)

lemma close_handler_subs:
  "filter is_forward (sig_subs (snd (close_handler h cl code signal r))) =
     filter is_forward (sig_subs r)
   \<and> msg_subs (snd (close_handler h cl code signal r)) = msg_subs r
   \<and> listeners (snd (close_handler h cl code signal r)) = listeners r"
proof -
  obtain result u where c: "call_cleanup cl code signal (watchdogPid h) (user r) = (result, u)"
    by (cases "call_cleanup cl code signal (watchdogPid h) (user r)")
  let ?r1 = "log (CleanupCall code signal (watchdogPid h)) (r\<lparr>done_flag := True, user := u\<rparr>)"
  have f: "sig_subs ?r1 = sig_subs r" "msg_subs ?r1 = msg_subs r" "listeners ?r1 = listeners r"
    by (simp_all add: log_subs)
  show ?thesis
    using f reconcile_subs [of h _ "(code, signal)" ?r1]
    by (cases result) (simp_all add: close_handler_def c Let_def)
qed

lemma resume_subs:
  "filter is_forward (sig_subs (snd (resume h r))) = filter is_forward (sig_subs r)
   \<and> msg_subs (snd (resume h r)) = msg_subs r
   \<and> listeners (snd (resume h r)) = listeners r"
  by (simp add: resume_def reconcile_subs split: option.split settled.split prod.split)

lemma run_hook_subs:
  "sig_subs (snd (run_hook h hk r)) = sig_subs r
   \<and> msg_subs (snd (run_hook h hk r)) = msg_subs r
   \<and> listeners (snd (run_hook h hk r)) = listeners r"
  by (cases hk)
     (simp_all add: run_hook_def lift_def childHangup_def try_catch_def child_kill_def log_subs)

lemma run_hooks_subs:
  "sig_subs (snd (run_hooks h hks r)) = sig_subs r
   \<and> msg_subs (snd (run_hooks h hks r)) = msg_subs r
   \<and> listeners (snd (run_hooks h hks r)) = listeners r"
proof (induction hks arbitrary: r)
  case Nil
  then show ?case by simp
next
  case (Cons hk hks)
  obtain e r1 where c: "run_hook h hk r = (e, r1)"
    by (cases "run_hook h hk r")
  from run_hook_subs [of h hk r] c Cons.IH [of r1] show ?case
    by (cases e) simp_all
qed

lemma exit_emit_subs:
  "sig_subs (snd (exit_emit h r)) = sig_subs r
   \<and> msg_subs (snd (exit_emit h r)) = msg_subs r
   \<and> listeners (snd (exit_emit h r)) = listeners r"
  using run_hooks_subs [of h "exit_hooks r" "r\<lparr>exit_emitted := True\<rparr>"]
  by (simp add: exit_emit_def)

lemma sig_exit_subs:
  "filter is_forward (sig_subs (snd (sig_exit h sig r))) = filter is_forward (sig_subs r)
   \<and> msg_subs (snd (sig_exit h sig r)) = msg_subs r
   \<and> listeners (snd (sig_exit h sig r)) = listeners r"
proof -
  obtain e r1 where c: "exit_emit h (unload h r) = (e, r1)"
    by (cases "exit_emit h (unload h r)")
  from exit_emit_subs [of h "unload h r"] c
  have f: "filter is_forward (sig_subs r1) = filter is_forward (sig_subs r)"
    "msg_subs r1 = msg_subs r" "listeners r1 = listeners r"
    by (simp_all add: unload_subs)
  with process_kill_subs [of h "pid h" sig r1] show ?thesis
    by (cases e) (simp_all add: sig_exit_def c)
qed

lemma surface_subs:
  "sig_subs (surface (e, r)) = sig_subs r
   \<and> msg_subs (surface (e, r)) = msg_subs r
   \<and> listeners (surface (e, r)) = listeners r"
  by (cases e) (simp_all add: surface_def log_subs)

lemma call_listener_subs:
  "l \<noteq> Unproxy \<Longrightarrow>
   filter is_forward (sig_subs (snd (call_listener h cl ev l r))) = filter is_forward (sig_subs r)
   \<and> msg_subs (snd (call_listener h cl ev l r)) = msg_subs r
   \<and> listeners (snd (call_listener h cl ev l r)) = listeners r"
  by (cases "(h, cl, ev, l, r)" rule: call_listener.cases)
     (simp_all add: lift_def forward_def try_catch_def child_kill_def
        log_def close_handler_subs sig_exit_subs)

lemma emit_subs:
  "Unproxy \<notin> set ls \<Longrightarrow>
   filter is_forward (sig_subs (emit h cl ev ls r)) = filter is_forward (sig_subs r)
   \<and> msg_subs (emit h cl ev ls r) = msg_subs r
   \<and> listeners (emit h cl ev ls r) = listeners r"
proof (induction ls arbitrary: r)
  case Nil
  then show ?case by simp
next
  case (Cons l ls)
  obtain e r' where c: "call_listener h cl ev l r = (e, r')"
    by (cases "call_listener h cl ev l r")
  from Cons.prems have l: "l \<noteq> Unproxy" and ls: "Unproxy \<notin> set ls"
    by auto
  from call_listener_subs [OF l, of h cl ev r] c
  have f: "filter is_forward (sig_subs r') = filter is_forward (sig_subs r)"
    "msg_subs r' = msg_subs r" "listeners r' = listeners r"
    by simp_all
  show ?case
    using Cons.IH [OF ls, of r'] Cons.IH [OF ls, of "log (Uncaught (the e)) r'"] f
    by (cases e) (simp_all add: c log_subs)
qed

lemma deliver_subs:
  assumes "Unproxy \<notin> set (subscribers ev r)"
  shows "filter is_forward (sig_subs (deliver h cl ev r)) = filter is_forward (sig_subs r)
   \<and> msg_subs (deliver h cl ev r) = msg_subs r
   \<and> listeners (deliver h cl ev r) = listeners r"
proof -
  consider "ev = CleanupSettled" | "ev = ParentExit"
    | "ev \<noteq> CleanupSettled" "ev \<noteq> ParentExit"
    by blast
  then show ?thesis
  proof cases
    case 1
    obtain e r' where c: "resume h r = (e, r')"
      by (cases "resume h r")
    with resume_subs [of h r] surface_subs [of e r'] show ?thesis
      by (simp add: deliver_def 1)
  next
    case 2
    obtain e r' where c: "exit_emit h r = (e, r')"
      by (cases "exit_emit h r")
    with exit_emit_subs [of h r] surface_subs [of e r'] show ?thesis
      by (simp add: deliver_def 2)
  next
    case 3
    with emit_subs [OF assms, of h cl ev r] show ?thesis
      by (simp add: deliver_def)
  qed
qed

lemma deliver_parent_exit:
  "sig_subs (deliver h cl ParentExit r) = sig_subs r
   \<and> listeners (deliver h cl ParentExit r) = listeners r"
proof -
  obtain e r' where c: "exit_emit h r = (e, r')"
    by (cases "exit_emit h r")
  with exit_emit_subs [of h r] surface_subs [of e r'] show ?thesis
    by (simp add: deliver_def)
qed

section \<open>Unsubscribing the table\<close>

lemma removeListener_last:
  "(sig, l) \<notin> set new \<Longrightarrow> removeListener sig l (pre @ (sig, l) # new) = pre @ new"
  by (simp add: removeListener_def remove1_append)

lemma fold_removeListener:
  "distinct new \<Longrightarrow>
   fold (\<lambda>(sig, l) subs. removeListener sig l subs) new (pre @ new) = pre"
proof (induction new)
  case Nil
  then show ?case by simp
next
  case (Cons x new)
  obtain sig l where x: "x = (sig, l)" by (cases x)
  from Cons.prems have "(sig, l) \<notin> set new" and "distinct new"
    by (simp_all add: x)
  with Cons.IH show ?case
    by (simp add: x removeListener_last)
qed

lemma listeners_distinct:
  assumes "distinct sigs"
  shows "fold (\<lambda>(s, l). map_set s l) (subscribed h sigs 0) [] = subscribed h sigs 0"
    and "distinct (subscribed h sigs 0)"
proof -
  from distinct_subscribed [OF assms, of h 0]
  have d: "distinct (map fst (subscribed h sigs 0))" .
  from fold_map_set_distinct [OF d, of "[]"]
  show "fold (\<lambda>(s, l). map_set s l) (subscribed h sigs 0) [] = subscribed h sigs 0"
    by simp
  from d show "distinct (subscribed h sigs 0)"
    by (simp add: distinct_map)
qed

lemma forward_subscribed: "filter is_forward (subscribed h sigs i) = subscribed h sigs i"
  by (induction sigs arbitrary: i) simp_all

lemma forward_onExit:
  "filter is_forward (sig_subs (onExit h hk r)) = filter is_forward (sig_subs r)"
  by (simp add: onExit_result filter_empty_conv)

lemma deliver_exit:
  assumes "foregroundChild h fgArgs hp r0 = Inr (cl, hp', r)" and "distinct (allSignals h)"
  shows "deliver h cl ChildExit r = r\<lparr>sig_subs := sig_subs (onExit h (ChildHangup (hangup_id r)) r0)\<rparr>"
    and "listeners r = subscribed h (allSignals h) 0"
proof -
  note f = foregroundChild_fresh [OF assms(1)]
  note d = listeners_distinct [OF assms(2), of h]
  show l: "listeners r = subscribed h (allSignals h) 0"
    by (simp add: f(6) d(1))
  have "unproxy r = r\<lparr>sig_subs := sig_subs (onExit h (ChildHangup (hangup_id r)) r0)\<rparr>"
    by (simp add: unproxy_def l f(5) fold_removeListener [OF d(2)])
  then show "deliver h cl ChildExit r =
      r\<lparr>sig_subs := sig_subs (onExit h (ChildHangup (hangup_id r)) r0)\<rparr>"
    by (simp add: deliver_def f(4))
qed

lemma teardown_state:
  assumes "foregroundChild h fgArgs hp r0 = Inr (cl, hp', r)" and "distinct (allSignals h)"
  shows "filter is_forward
           (sig_subs (deliver_all h cl [ChildExit, ChildClose code signal, CleanupSettled] r)) =
         filter is_forward (sig_subs r0)"
    and "listeners (deliver_all h cl [ChildExit, ChildClose code signal, CleanupSettled] r) =
           subscribed h (allSignals h) 0"
    and "msg_subs (deliver_all h cl [ChildExit, ChildClose code signal, CleanupSettled] r) =
           (if has_send h then [RelayToChild] else msg_subs r0)"
proof -
  note f = foregroundChild_fresh [OF assms(1)]
  note x = deliver_exit [OF assms]
  let ?r1 = "deliver h cl ChildExit r"
  let ?r2 = "deliver h cl (ChildClose code signal) ?r1"
  let ?r3 = "deliver h cl CleanupSettled ?r2"
  have all: "deliver_all h cl [ChildExit, ChildClose code signal, CleanupSettled] r = ?r3"
    by (simp add: deliver_all_def)
  have s1: "filter is_forward (sig_subs ?r1) = filter is_forward (sig_subs r0)"
    "listeners ?r1 = subscribed h (allSignals h) 0"
    "msg_subs ?r1 = (if has_send h then [RelayToChild] else msg_subs r0)"
    "child_close_subs ?r1 = [CloseHandler]"
    by (simp_all add: x f forward_onExit)
  have "Unproxy \<notin> set (subscribers (ChildClose code signal) ?r1)"
    by (simp add: s1(4))
  from deliver_subs [OF this, of h cl] s1
  have s2: "filter is_forward (sig_subs ?r2) = filter is_forward (sig_subs r0)"
    "listeners ?r2 = subscribed h (allSignals h) 0"
    "msg_subs ?r2 = (if has_send h then [RelayToChild] else msg_subs r0)"
    by simp_all
  have "Unproxy \<notin> set (subscribers CleanupSettled ?r2)"
    by simp
  from deliver_subs [OF this, of h cl] s2
  show "filter is_forward
           (sig_subs (deliver_all h cl [ChildExit, ChildClose code signal, CleanupSettled] r)) =
         filter is_forward (sig_subs r0)"
    and "listeners (deliver_all h cl [ChildExit, ChildClose code signal, CleanupSettled] r) =
           subscribed h (allSignals h) 0"
    and "msg_subs (deliver_all h cl [ChildExit, ChildClose code signal, CleanupSettled] r) =
           (if has_send h then [RelayToChild] else msg_subs r0)"
    by (simp_all only: all)
qed

section \<open>After the child has gone\<close>

lemma started_eq:
  "foregroundChild h fgArgs hp r0 = Inr (cl, hp', r) \<Longrightarrow> started h fgArgs hp r0 = r"
  by (simp add: started_def)

lemma posix_catalog:
  "distinct (allSignals posix)"
  "subscribed posix (allSignals posix) 0 =
     [(''SIGHUP'', Forward 0 ''SIGHUP''), (''SIGINT'', Forward 1 ''SIGINT''),
      (''SIGTERM'', Forward 3 ''SIGTERM''), (''SIGWINCH'', Forward 4 ''SIGWINCH'')]"
  by (simp_all add: posix_def)

lemma forked_catalog:
  "distinct (allSignals forked)"
  "subscribed forked (allSignals forked) 0 =
     [(''SIGHUP'', Forward 0 ''SIGHUP''), (''SIGINT'', Forward 1 ''SIGINT''),
      (''SIGTERM'', Forward 3 ''SIGTERM''), (''SIGWINCH'', Forward 4 ''SIGWINCH'')]"
  "has_send forked"
  by (simp_all add: posix_def forked_def)

lemma posix_onExit_busy:
  "sig_subs (onExit posix hk busy) =
     [(''SIGINT'', Foreign 0), (''SIGHUP'', SigExit ''SIGHUP''), (''SIGINT'', SigExit ''SIGINT''),
      (''SIGTERM'', SigExit ''SIGTERM'')]"
  by (simp add: onExit_result busy_def idle_def posix_def)

text \<open>
  Claim C1, as the code has it. When the child's exit event is delivered, the forwarding
  listeners of the Listener Registration Table are unsubscribed, which leaves the parent
  with the signal subscriptions it had when \<open>proxySignals\<close> was called (the catalog
  holding each signal once). Once the close event has followed and the close handler has
  run to its end, however it ends, the forwarding listeners subscribed to the parent are
  those it had before \<open>foregroundChild\<close> was called. The table itself keeps its entries.
  The message listeners are the relay alone if the parent has a message channel, and
  otherwise those the parent had.
\<close>

theorem teardown_unsubscribes_forwarders:
  assumes "foregroundChild h fgArgs hp r0 = Inr (cl, hp', r)" and "distinct (allSignals h)"
  shows "sig_subs (deliver h cl ChildExit r) = sig_subs (onExit h (ChildHangup (hangup_id r)) r0)
     \<and> filter is_forward
         (sig_subs (deliver_all h cl [ChildExit, ChildClose code signal, CleanupSettled] r)) =
       filter is_forward (sig_subs r0)
     \<and> listeners (deliver_all h cl [ChildExit, ChildClose code signal, CleanupSettled] r) =
           subscribed h (allSignals h) 0
     \<and> msg_subs (deliver_all h cl [ChildExit, ChildClose code signal, CleanupSettled] r) =
           (if has_send h then [RelayToChild] else msg_subs r0)"
  using teardown_state [OF assms] by (simp add: deliver_exit(1) [OF assms])

theorem teardown_unsubscribes_forwarders_witness:
  "\<exists>hp' r. foregroundChild posix [Str ''node'', veto] [] busy = Inr (veto, hp', r)
     \<and> distinct (allSignals posix)
     \<and> sig_subs (deliver posix veto ChildExit r) =
          [(''SIGINT'', Foreign 0), (''SIGHUP'', SigExit ''SIGHUP''),
           (''SIGINT'', SigExit ''SIGINT''), (''SIGTERM'', SigExit ''SIGTERM'')]
     \<and> filter is_forward
          (sig_subs (deliver_all posix veto
             [ChildExit, ChildClose None (Some ''SIGINT''), CleanupSettled] r)) = []
     \<and> msg_subs (deliver_all posix veto [ChildExit, ChildClose None (Some ''SIGINT''), CleanupSettled] r) =
          [Foreign 1]"
proof -
  from foregroundChild_result [OF normalize_node, where h = posix and r = busy]
  obtain hp' r where fg: "foregroundChild posix [Str ''node'', veto] [] busy = Inr (veto, hp', r)"
    unfolding veto_def by blast
  have b: "sig_subs busy = [(''SIGINT'', Foreign 0)]" "msg_subs busy = [Foreign 1]"
    "\<not> has_send posix"
    by (simp_all add: busy_def idle_def posix_def)
  from teardown_unsubscribes_forwarders [OF fg posix_catalog(1), of None "Some ''SIGINT''"]
  show ?thesis using fg posix_catalog(1) by (simp add: b posix_onExit_busy)
qed

text \<open>
  Claim C1 as stated fails: on a parent with a message channel whose cleanup callback
  vetoes the exit, the table still holds its entries after teardown, and the parent's
  message listeners are the relay, which it did not have before.
\<close>

theorem table_and_relay_remain:
  "\<not> (listeners (deliver_all forked veto [ChildExit, ChildClose (Some 0) None, CleanupSettled]
                   (started forked [Str ''node'', veto] [] busy)) = []
      \<and> set (msg_subs (deliver_all forked veto [ChildExit, ChildClose (Some 0) None, CleanupSettled]
                   (started forked [Str ''node'', veto] [] busy))) \<subseteq> set (msg_subs busy))"
proof -
  from foregroundChild_result [OF normalize_node, where h = forked and r = busy]
  obtain hp' r where fg: "foregroundChild forked [Str ''node'', veto] [] busy = Inr (veto, hp', r)"
    unfolding veto_def by blast
  note s = started_eq [OF fg]
  from teardown_state(2) [OF fg forked_catalog(1), of "Some 0" None]
  show ?thesis
    by (simp add: s forked_catalog(2))
qed

section \<open>The spawn configuration and the message relay\<close>

lemma stdio_streams:
  "stdio b = Arr ([Num 0, Num 1, Num 2] @ (if b then [Str ''ipc''] else []))"
  by (simp add: stdio_def)

lemma relay_to_parent:
  "has_send h \<Longrightarrow> child_msg_subs r = [RelayToParent] \<Longrightarrow>
   deliver h cl (ChildMessage m) r = log (ProcessSend m) r"
  by (simp add: deliver_def)

lemma relay_to_child:
  "msg_subs r = [RelayToChild] \<Longrightarrow> deliver h cl (ParentMessage m) r = log (ChildSend m) r"
  by (simp add: deliver_def)

text \<open>
  Claim C9. Whatever the arguments, \<open>foregroundChild\<close> hands the spawn collaborator an
  options object whose \<open>stdio\<close> is the parent's three standard streams, followed by
  \<open>'ipc'\<close> exactly when the parent has a message channel. With a channel, the relay is the
  parent's only message listener (those it had are detached), a message from the child is
  sent on by the parent and a message to the parent is sent to the child; without one,
  the message listeners are left as they were.
\<close>

theorem spawn_configuration:
  "\<exists>cl hp' r program args opts.
      foregroundChild h fgArgs hp r0 = Inr (cl, hp', r)
    \<and> trace r = trace r0 @ [Spawn program args opts, WatchdogSpawn]
    \<and> map_of opts ''stdio'' =
         Some (Arr ([Num 0, Num 1, Num 2] @ (if has_send h then [Str ''ipc''] else [])))
    \<and> (if has_send h
        then msg_subs r = [RelayToChild] \<and> child_msg_subs r = [RelayToParent]
           \<and> deliver h cl (ChildMessage m) r = log (ProcessSend m) r
           \<and> deliver h cl (ParentMessage m) r = log (ChildSend m) r
        else msg_subs r = msg_subs r0 \<and> child_msg_subs r = [])"
proof -
  obtain program args spawnOpts cleanup hp1
    where n: "normalizeFgArgs fgArgs hp = ((program, args, spawnOpts, cleanup), hp1)"
    by (metis prod.exhaust)
  define opts where "opts = map_set ''stdio'' (stdio (has_send h)) (hp1 ! (length hp1 - 1))"
  from foregroundChild_result [OF n, of h r0]
  obtain hp' r where fg: "foregroundChild h fgArgs hp r0 = Inr (cleanup, hp', r)"
    and t: "trace r = trace r0 @ [Spawn program args opts, WatchdogSpawn]"
    by (simp add: opts_def)
  note f = foregroundChild_fresh [OF fg]
  have o: "map_of opts ''stdio'' =
         Some (Arr ([Num 0, Num 1, Num 2] @ (if has_send h then [Str ''ipc''] else [])))"
    by (simp only: opts_def map_of_map_set stdio_streams)
  have m: "if has_send h
        then msg_subs r = [RelayToChild] \<and> child_msg_subs r = [RelayToParent]
           \<and> deliver h cleanup (ChildMessage m) r = log (ProcessSend m) r
           \<and> deliver h cleanup (ParentMessage m) r = log (ChildSend m) r
        else msg_subs r = msg_subs r0 \<and> child_msg_subs r = []"
    using f(7,8) by (simp add: relay_to_parent relay_to_child)
  from fg t o m show ?thesis by blast
qed

theorem spawn_configuration_witness:
  "\<exists>cl hp' r program args opts.
      foregroundChild forked [Str ''node'', veto] [] busy = Inr (cl, hp', r)
    \<and> trace r = [Spawn program args opts, WatchdogSpawn]
    \<and> map_of opts ''stdio'' = Some (Arr [Num 0, Num 1, Num 2, Str ''ipc''])
    \<and> msg_subs r = [RelayToChild] \<and> child_msg_subs r = [RelayToParent]
    \<and> deliver forked cl (ChildMessage ''ping'') r = log (ProcessSend ''ping'') r
    \<and> deliver forked cl (ParentMessage ''ping'') r = log (ChildSend ''ping'') r"
proof -
  have p: "has_send forked" "trace busy = []"
    by (simp_all add: forked_def busy_def idle_def)
  from spawn_configuration [of forked "[Str ''node'', veto]" "[]" busy "''ping''"]
  show ?thesis by (simp add: p)
qed

text \<open>
  Claim C10. \<open>normalizeFgArgs\<close> returns its options in a newly allocated object, which
  holds the properties of the caller's options object when the caller passed one;
  \<open>foregroundChild\<close> writes \<open>stdio\<close> to that new object and to nothing else, so every
  object that existed before the call, the caller's options among them, is as it was.
\<close>

theorem caller_options_untouched:
  "\<exists>program args b cleanup hp1 hp' r.
      normalizeFgArgs fgArgs hp = ((program, args, Obj b, cleanup), hp1)
    \<and> length hp \<le> b \<and> b < length hp1 \<and> take (length hp) hp1 = hp
    \<and> foregroundChild h fgArgs hp r0 = Inr (cleanup, hp', r)
    \<and> take (length hp) hp' = hp
    \<and> hp' = hp1[b := map_set ''stdio'' (stdio (has_send h)) (hp1 ! b)]
    \<and> (\<forall>a. a < length hp
            \<and> (element fgArgs 1 = Obj a \<or> isArray (element fgArgs 1) \<and> element fgArgs 2 = Obj a)
          \<longrightarrow> hp1 ! b = hp ! a)"
proof -
  obtain program args spawnOpts cleanup hp1
    where n: "normalizeFgArgs fgArgs hp = ((program, args, spawnOpts, cleanup), hp1)"
    by (metis prod.exhaust)
  note o = normalizeFgArgs_opts [OF n]
  define b where "b = length hp1 - 1"
  from o have b: "spawnOpts = Obj b" "length hp \<le> b" "b < length hp1"
    by (simp_all add: b_def)
  define hp' where "hp' = hp1[b := map_set ''stdio'' (stdio (has_send h)) (hp1 ! b)]"
  from foregroundChild_result [OF n, of h r0]
  obtain r where fg: "foregroundChild h fgArgs hp r0 = Inr (cleanup, hp', r)"
    by (simp add: hp'_def b_def)
  have keep: "take (length hp) hp' = hp"
    using b(2) o(3) by (simp add: hp'_def)
  have copy: "hp1 ! b = hp ! a"
    if "a < length hp"
      and "element fgArgs 1 = Obj a \<or> isArray (element fgArgs 1) \<and> element fgArgs 2 = Obj a"
    for a
  proof -
    from that(2) have "snd (normalizeFgArgs fgArgs hp) ! (length (snd (normalizeFgArgs fgArgs hp)) - 1) = hp ! a"
    proof
      assume "element fgArgs 1 = Obj a"
      with that(1) show ?thesis
        by (simp add: normalizeFgArgs_def Let_def split_def alloc_def nth_append)
    next
      assume e: "isArray (element fgArgs 1) \<and> element fgArgs 2 = Obj a"
      then obtain vs where "element fgArgs 1 = Arr vs"
        by (cases "element fgArgs 1") simp_all
      with e that(1) show ?thesis
        by (simp add: normalizeFgArgs_def Let_def split_def alloc_def nth_append)
    qed
    then show ?thesis by (simp add: n b_def)
  qed
  from n b o(3) fg keep copy hp'_def show ?thesis by blast
qed


theorem caller_options_untouched_witness:
  "\<exists>cl hp' r.
      foregroundChild posix [Str ''node'', Arr [Str ''-v''], Obj 0]
        [[(''cwd'', Str ''/tmp''), (''stdio'', Str ''pipe'')]] idle = Inr (cl, hp', r)
    \<and> hp' = [[(''cwd'', Str ''/tmp''), (''stdio'', Str ''pipe'')],
              [(''cwd'', Str ''/tmp''), (''stdio'', Arr [Num 0, Num 1, Num 2])]]"
proof -
  have n: "normalizeFgArgs [Str ''node'', Arr [Str ''-v''], Obj 0]
        [[(''cwd'', Str ''/tmp''), (''stdio'', Str ''pipe'')]] =
      ((Str ''node'', Arr [Str ''-v''], Obj 1, defaultCleanup),
       [[(''cwd'', Str ''/tmp''), (''stdio'', Str ''pipe'')],
        [(''cwd'', Str ''/tmp''), (''stdio'', Str ''pipe'')]])"
    by (simp add: normalizeFgArgs_def element_def alloc_def)
  have p: "\<not> has_send posix"
    by (simp add: posix_def)
  from caller_options_untouched [of "[Str ''node'', Arr [Str ''-v''], Obj 0]"
      "[[(''cwd'', Str ''/tmp''), (''stdio'', Str ''pipe'')]]" posix idle]
  show ?thesis
    by (simp add: n p stdio_def) blast
qed


section \<open>Which teardown path unsubscribes the signal handlers\<close>

lemma own_hook_result:
  "run_hook h (ChildHangup (hangup_id r)) r =
     (if child_accepts h ''SIGHUP'' then (None, log (ChildKill ''SIGHUP'') r)
      else if child_accepts h ''SIGTERM'' then (None, log (ChildKill ''SIGTERM'') r)
      else (Some (ChildKillError ''SIGTERM''), r))"
  by (simp add: run_hook_def lift_def childHangup_def try_catch_def child_kill_def)

lemma remove1_last: "x \<notin> set xs \<Longrightarrow> remove1 x (xs @ [x]) = xs"
  by (simp add: remove1_append)

lemma closed_subs:
  assumes "foregroundChild h fgArgs hp r0 = Inr (cl, hp', r)"
    and "yields (fst (call_cleanup cl code signal (watchdogPid h) (user r))) v"
  shows "filter is_forward (sig_subs (snd (closed h cl code signal r))) =
           filter is_forward (sig_subs r)"
    and "listeners (snd (closed h cl code signal r)) = listeners r"
    and "exit_hooks (snd (closed h cl code signal r)) = exit_hooks r0"
proof -
  note f = foregroundChild_fresh [OF assms(1)]
  let ?r1 = "log (CleanupCall code signal (watchdogPid h))
               (r\<lparr>done_flag := True,
                  user := snd (call_cleanup cl code signal (watchdogPid h) (user r))\<rparr>)"
  have c: "closed h cl code signal r = reconcile h v (code, signal) ?r1"
    by (rule closed_reconcile [OF f(2) f(3) assms(2)])
  have s: "sig_subs ?r1 = sig_subs r" "listeners ?r1 = listeners r"
    "exit_hooks ?r1 = exit_hooks r0 @ [ChildHangup (hangup_id r)]" "hangup_id ?r1 = hangup_id r"
    by (simp_all add: log_subs f(9))
  from reconcile_subs [of h v "(code, signal)" ?r1]
  show "filter is_forward (sig_subs (snd (closed h cl code signal r))) =
           filter is_forward (sig_subs r)"
    and "listeners (snd (closed h cl code signal r)) = listeners r"
    and "exit_hooks (snd (closed h cl code signal r)) = exit_hooks r0"
    by (simp_all add: c s remove1_last [OF f(10)])
qed

lemma unload_idem: "unload h (unload h r) = unload h r"
  by (simp add: unload_def)

lemma removeOnExit_idem:
  assumes "exit_hooks r = hks @ [ChildHangup (hangup_id r)]"
    and "ChildHangup (hangup_id r) \<notin> set hks"
  shows "removeOnExit h (removeOnExit h r) = removeOnExit h r"
proof (cases "hks = []")
  case True
  have "removeOnExit h r = unload h (r\<lparr>exit_hooks := []\<rparr>)"
    by (simp add: removeOnExit_def remove_hook_def assms(1) True)
  moreover have "removeOnExit h (unload h (r\<lparr>exit_hooks := []\<rparr>)) =
      unload h (unload h (r\<lparr>exit_hooks := []\<rparr>))"
    by (simp add: removeOnExit_def remove_hook_def unload_def)
  ultimately show ?thesis by (simp add: unload_idem)
next
  case False
  have a: "removeOnExit h r = r\<lparr>exit_hooks := hks\<rparr>"
    using False by (simp add: removeOnExit_def remove_hook_def assms remove1_last)
  have "removeOnExit h (r\<lparr>exit_hooks := hks\<rparr>) = r\<lparr>exit_hooks := hks\<rparr>"
    using False assms(2) by (simp add: removeOnExit_def remove_hook_def remove1_idem)
  with a show ?thesis by simp
qed

lemma proxySignals_stop: "\<exists>r1. proxySignals h r = Inr (Unproxy, r1)"
  by (simp add: proxySignals_def proxy_loop_result)

text \<open>
  Claim C8, as the code has it. \<open>proxySignals\<close> returns its stop function, and
  \<open>foregroundChild\<close> drops it. The hook it registers for the parent's exit is a
  \<open>childHangup\<close> closure of its own, which sends the child \<open>SIGHUP\<close> (or \<open>SIGTERM\<close>); running
  the hooks leaves the parent's signal subscriptions and the table as they are. Once the
  cleanup value is known, the close handler takes its own hook away, so that the hooks
  are those registered before the call (doing so again changes nothing), and leaves the
  forwarding listeners subscribed. They are unsubscribed when the child's exit event
  arrives, by the stop function that \<open>proxySignals\<close> itself attached to that event.
\<close>

theorem reconciler_discards_stop_function:
  assumes "foregroundChild h fgArgs hp r0 = Inr (cl, hp', r)"
  shows "(\<exists>r1. proxySignals h r' = Inr (Unproxy, r1))
     \<and> exit_hooks r = exit_hooks r0 @ [ChildHangup (hangup_id r)]
     \<and> ChildHangup (hangup_id r) \<notin> set (exit_hooks r0)
     \<and> Unproxy \<in> set (child_exit_subs r)
     \<and> run_hook h (ChildHangup (hangup_id r)) r =
         (if child_accepts h ''SIGHUP'' then (None, log (ChildKill ''SIGHUP'') r)
          else if child_accepts h ''SIGTERM'' then (None, log (ChildKill ''SIGTERM'') r)
          else (Some (ChildKillError ''SIGTERM''), r))
     \<and> sig_subs (deliver h cl ParentExit r) = sig_subs r
     \<and> listeners (deliver h cl ParentExit r) = listeners r
     \<and> (yields (fst (call_cleanup cl code signal (watchdogPid h) (user r))) v \<longrightarrow>
          filter is_forward (sig_subs (snd (closed h cl code signal r))) =
            filter is_forward (sig_subs r)
          \<and> listeners (snd (closed h cl code signal r)) = listeners r
          \<and> exit_hooks (snd (closed h cl code signal r)) = exit_hooks r0)
     \<and> removeOnExit h (removeOnExit h r) = removeOnExit h r
     \<and> (distinct (allSignals h) \<longrightarrow>
          sig_subs (deliver h cl ChildExit r) = sig_subs (onExit h (ChildHangup (hangup_id r)) r0))"
proof -
  note f = foregroundChild_fresh [OF assms]
  have "sig_subs (deliver h cl ChildExit r) = sig_subs (onExit h (ChildHangup (hangup_id r)) r0)"
    if "distinct (allSignals h)"
    by (simp add: deliver_exit(1) [OF assms that])
  moreover have "Unproxy \<in> set (child_exit_subs r)"
    by (simp add: f(4))
  ultimately show ?thesis
    using proxySignals_stop [of h r'] f(9) f(10) own_hook_result [of h r]
      deliver_parent_exit [of h cl r]
      closed_subs [OF assms, where code = code and signal = signal and v = v]
      removeOnExit_idem [OF f(9) f(10), of h]
    by blast
qed

theorem reconciler_discards_stop_function_witness:
  "\<exists>hp' r. foregroundChild posix [Str ''node'', veto] [] idle = Inr (veto, hp', r)
     \<and> exit_hooks r = [ChildHangup (hangup_id r)]
     \<and> run_hook posix (ChildHangup (hangup_id r)) r = (None, log (ChildKill ''SIGHUP'') r)
     \<and> sig_subs (deliver posix veto ParentExit r) = sig_subs r
     \<and> filter is_forward (sig_subs (snd (closed posix veto (Some 0) None r))) =
          filter is_forward (sig_subs r)
     \<and> exit_hooks (snd (closed posix veto (Some 0) None r)) = []
     \<and> filter is_forward (sig_subs (deliver posix veto ChildExit r)) = []"
proof -
  from foregroundChild_result [OF normalize_node, where h = posix and r = idle]
  obtain hp' r where fg: "foregroundChild posix [Str ''node'', veto] [] idle = Inr (veto, hp', r)"
    unfolding veto_def by blast
  have i: "exit_hooks idle = []" "sig_subs idle = []" "child_accepts posix ''SIGHUP''"
    by (simp_all add: idle_def posix_def)
  from foregroundChild_fresh(12) [OF fg] have u: "user r = 0"
    by (simp add: idle_def)
  have y: "yields (fst (call_cleanup veto (Some 0) None (watchdogPid posix) (user r))) (RBool False)"
    by (simp add: yields_def veto_def)
  from reconciler_discards_stop_function [OF fg, where r' = idle and code = "Some 0"
      and signal = None and v = "RBool False"] y posix_catalog(1)
  show ?thesis using fg by (simp add: i forward_onExit)
qed

text \<open>
  Claim C8 as stated fails: the forwarding listener for \<open>SIGHUP\<close> is still subscribed
  after the parent-exit hook has run, and still subscribed after the close handler has
  run to its end, as long as the child's exit event has not been delivered.
\<close>

theorem signal_handlers_survive_teardown_paths:
  "(''SIGHUP'', Forward 0 ''SIGHUP'') \<in>
     set (sig_subs (deliver posix veto ParentExit (started posix [Str ''node'', veto] [] idle)))
   \<and> (''SIGHUP'', Forward 0 ''SIGHUP'') \<in>
     set (sig_subs (snd (closed posix veto (Some 0) None (started posix [Str ''node'', veto] [] idle))))"
proof -
  from foregroundChild_result [OF normalize_node, where h = posix and r = idle]
  obtain hp' r where fg: "foregroundChild posix [Str ''node'', veto] [] idle = Inr (veto, hp', r)"
    unfolding veto_def by blast
  note s = started_eq [OF fg]
  note f = foregroundChild_fresh [OF fg]
  have y: "yields (fst (call_cleanup veto (Some 0) None (watchdogPid posix) (user r))) (RBool False)"
    by (simp add: yields_def veto_def)
  have r: "filter is_forward (sig_subs r) = subscribed posix (allSignals posix) 0"
    by (simp add: f(5) forward_onExit forward_subscribed) (simp add: idle_def)
  have m: "(''SIGHUP'', Forward 0 ''SIGHUP'') \<in> set (filter is_forward (sig_subs r))"
    by (simp only: r posix_catalog(2)) simp
  from deliver_parent_exit [of posix veto r] m
  have a: "(''SIGHUP'', Forward 0 ''SIGHUP'') \<in> set (sig_subs (deliver posix veto ParentExit r))"
    by simp
  from closed_subs(1) [OF fg y] m
  have "(''SIGHUP'', Forward 0 ''SIGHUP'') \<in>
      set (filter is_forward (sig_subs (snd (closed posix veto (Some 0) None r))))"
    by simp
  then have b: "(''SIGHUP'', Forward 0 ''SIGHUP'') \<in>
      set (sig_subs (snd (closed posix veto (Some 0) None r)))"
    by simp
  from a b show ?thesis by (simp add: s)
qed

end
